theory Spec2Isabelle
  imports Complex_Main "HOL-Library.Multiset"
begin

section \<open>The call-signature store of src/call/signature.c\<close>

text \<open>
  The file implements \<open>Parrot_Signature\<close>: a growable array of tagged cells for the
  positional arguments of a call, a string-keyed hash table of individually allocated
  cells for the named ones, and four opaque metadata handles. The embedding below keeps
  the C structure: the aggregate is a record, a cell is a tagged value, pointers are
  addresses into explicit stores held by the interpreter, and every dereference of an
  address that holds no block is an error value.
\<close>

subsection \<open>Values, cells and errors\<close>

text \<open>
  Pointers are addresses, \<open>0\<close> being the null pointer; \<open>STRINGNULL\<close> and \<open>PMCNULL\<close> are
  the null text and the null object. \<open>INTVAL\<close> is the signed machine integer of the
  platform; it is embedded as \<open>int\<close>, because every count and index of this file is
  bounded by the number of cells that were allocated, each of which occupies
  \<open>sizeof (Pcc_cell)\<close> bytes of addressable memory. The two places where the width of
  the machine integer decides the result have it written out: the byte pattern left by
  \<open>memset\<close> and the casts between integers and floats. \<open>FLOATVAL\<close> is the double of
  the platform; a value of it is embedded as the real number it denotes, and the cast
  of an integer to a float rounds to the 53 bits of a double's significand.
\<close>

type_synonym addr = nat
type_synonym INTVAL = int
type_synonym FLOATVAL = real

abbreviation (input) NULL :: addr where "NULL \<equiv> 0"
abbreviation (input) STRINGNULL :: addr where "STRINGNULL \<equiv> 0"
abbreviation (input) PMCNULL :: addr where "PMCNULL \<equiv> 0"

definition INTVAL_MIN :: int where "INTVAL_MIN = - (2 ^ 63)"
definition INTVAL_MAX :: int where "INTVAL_MAX = 2 ^ 63 - 1"

definition sizeof_INTVAL :: nat where "sizeof_INTVAL = 8"
definition sizeof_pointer :: nat where "sizeof_pointer = 8"
definition sizeof_Pcc_cell :: nat where "sizeof_Pcc_cell = 16"
definition sizeof_Parrot_Signature :: nat where
  "sizeof_Parrot_Signature = 6 * sizeof_pointer + 2 * sizeof_INTVAL"

text \<open>
  \<open>Pcc_cell\<close> is a union \<open>u\<close> of the four payloads with a \<open>type\<close> tag beside it. The
  code always writes payload and tag together, so a cell is a tagged value; \<open>NOCELL\<close>
  stands for a cell whose tag is none of the four (the \<open>default\<close> branch of every
  \<open>switch\<close> on \<open>CELL_TYPE_MASK\<close>), which is what uninitialised storage holds.
\<close>

datatype Pcc_cell =
    NOCELL
  | INTCELL INTVAL
  | FLOATCELL FLOATVAL
  | STRINGCELL addr
  | PMCCELL addr

datatype error = BadPointer | AssertFailed

datatype alloc_event =
    AllocFixed nat addr
  | AllocChunk nat addr
  | FreeFixed nat addr
  | FreeChunk addr

datatype gc_ref = StringRef addr | PMCRef addr

subsection \<open>The interpreter\<close>

text \<open>
  \<open>PARROT_INTERP\<close> is the ambient parameter of every function. The record holds what
  this file reaches through it. The stores: \<open>arrays\<close> (blocks of cells, the positional
  arrays), \<open>cells\<close> (the individually allocated cells of named arguments) and \<open>hashes\<close>
  (hash tables as bucket lists of key and cell address, in iteration order); \<open>brk\<close> is
  the last address the allocator handed out, \<open>alloc_log\<close> and \<open>mark_log\<close> record the calls
  made to the allocator and to the collector's marking primitives; \<open>interp_addr\<close> is
  the address of the interpreter structure itself. The other fields are the external
  collaborators, named as the code calls them: the text of a string object, the string
  and boxing library, the polymorphic methods of an object and its free-list flag.
  They are read, never written, by the functions of this file.
\<close>

record interp =
  interp_addr :: addr
  brk :: addr
  arrays :: "addr \<rightharpoonup> Pcc_cell list"
  cells :: "addr \<rightharpoonup> Pcc_cell"
  hashes :: "addr \<rightharpoonup> (addr \<times> addr) list"
  alloc_log :: "alloc_event list"
  mark_log :: "gc_ref list"
  str_text :: "addr \<Rightarrow> string"
  Parrot_str_to_num :: "addr \<Rightarrow> FLOATVAL"
  Parrot_str_from_int :: "INTVAL \<Rightarrow> addr"
  Parrot_str_from_num :: "FLOATVAL \<Rightarrow> addr"
  Parrot_pmc_box_integer :: "INTVAL \<Rightarrow> addr"
  Parrot_pmc_box_number :: "FLOATVAL \<Rightarrow> addr"
  Parrot_pmc_box_string :: "addr \<Rightarrow> addr"
  VTABLE_get_integer :: "addr \<Rightarrow> INTVAL"
  VTABLE_get_number :: "addr \<Rightarrow> FLOATVAL"
  VTABLE_get_string :: "addr \<Rightarrow> addr"
  VTABLE_clone :: "addr \<Rightarrow> addr"
  PObj_on_free_list_TEST :: "addr \<Rightarrow> bool"

record Parrot_Signature =
  positionals :: addr
  num_positionals :: INTVAL
  allocated_positionals :: INTVAL
  hash :: addr
  type_tuple :: addr
  short_sig :: addr
  arg_flags :: addr
  return_flags :: addr

subsection \<open>The allocator\<close>

text \<open>
  Modelled from the spec: \<open>allocate_pooled(size)\<close> / \<open>release_pooled(size, ptr)\<close> give and
  take back fixed-size storage, \<open>allocate_chunk(size)\<close> / \<open>release_chunk(ptr)\<close>
  variable-size storage. Their code is not in this file. An allocation returns the next
  unused address, never the null pointer, and is recorded in \<open>alloc_log\<close>; a release
  unmaps the block and is recorded too.
\<close>

definition Parrot_gc_allocate_fixed_size_storage :: "interp \<Rightarrow> nat \<Rightarrow> addr \<times> interp" where
  "Parrot_gc_allocate_fixed_size_storage i n =
     (Suc (brk i),
      i\<lparr>brk := Suc (brk i), alloc_log := alloc_log i @ [AllocFixed n (Suc (brk i))]\<rparr>)"

definition Parrot_gc_allocate_memory_chunk :: "interp \<Rightarrow> nat \<Rightarrow> addr \<times> interp" where
  "Parrot_gc_allocate_memory_chunk i n =
     (Suc (brk i),
      i\<lparr>brk := Suc (brk i), alloc_log := alloc_log i @ [AllocChunk n (Suc (brk i))]\<rparr>)"

definition Parrot_gc_free_fixed_size_storage :: "interp \<Rightarrow> nat \<Rightarrow> addr \<Rightarrow> interp" where
  "Parrot_gc_free_fixed_size_storage i n p =
     i\<lparr>arrays := (arrays i)(p := None), cells := (cells i)(p := None),
       alloc_log := alloc_log i @ [FreeFixed n p]\<rparr>"

definition Parrot_gc_free_memory_chunk :: "interp \<Rightarrow> addr \<Rightarrow> interp" where
  "Parrot_gc_free_memory_chunk i p =
     i\<lparr>arrays := (arrays i)(p := None), cells := (cells i)(p := None),
       alloc_log := alloc_log i @ [FreeChunk p]\<rparr>"

text \<open>
  \<open>memset (p, c, n)\<close> writes the byte \<open>c\<close> into each of \<open>n\<close> bytes. \<open>fill_bytes n c\<close> is
  the unsigned value of \<open>n\<close> such bytes; a pointer field reads it as it is, an \<open>INTVAL\<close>
  field as a two's complement number.
\<close>

fun fill_bytes :: "nat \<Rightarrow> nat \<Rightarrow> nat" where
  "fill_bytes 0 c = 0"
| "fill_bytes (Suc n) c = c mod 256 + 256 * fill_bytes n c"

definition memset_pointer :: "nat \<Rightarrow> addr" where
  "memset_pointer c = fill_bytes sizeof_pointer c"

definition memset_INTVAL :: "nat \<Rightarrow> INTVAL" where
  "memset_INTVAL c =
     (let u = int (fill_bytes sizeof_INTVAL c)
      in if u \<le> INTVAL_MAX then u else u - 2 ^ (8 * sizeof_INTVAL))"

subsection \<open>Allocation of a Signature\<close>

text \<open>
  \<open>Parrot_pcc_signature_new\<close>: the aggregate comes from the fixed-size pool and
  \<open>memset (sig, 1, sizeof (Parrot_Signature))\<close> fills every byte of it with 1.
\<close>

definition Parrot_pcc_signature_new :: "interp \<Rightarrow> Parrot_Signature \<times> interp" where
  "Parrot_pcc_signature_new i =
     (let (sig, i') = Parrot_gc_allocate_fixed_size_storage i sizeof_Parrot_Signature
      in (\<lparr>positionals = memset_pointer 1,
           num_positionals = memset_INTVAL 1,
           allocated_positionals = memset_INTVAL 1,
           hash = memset_pointer 1,
           type_tuple = memset_pointer 1,
           short_sig = memset_pointer 1,
           arg_flags = memset_pointer 1,
           return_flags = memset_pointer 1\<rparr>, i'))"

text \<open>
  The fresh state of a Signature as the lifecycle describes it: zero positionals, no
  positional array, no named table, no metadata.
\<close>

definition fresh :: "Parrot_Signature \<Rightarrow> bool" where
  "fresh s \<longleftrightarrow>
     positionals s = NULL \<and> num_positionals s = 0 \<and> allocated_positionals s = 0 \<and>
     hash s = NULL \<and> type_tuple s = NULL \<and> short_sig s = NULL \<and>
     arg_flags s = NULL \<and> return_flags s = NULL"

subsection \<open>The positional store\<close>

text \<open>
  \<open>memcpy\<close> of \<open>n\<close> cells between two blocks of cells. Copying no cell touches
  neither block; copying a negative number of cells, or more than either block holds,
  or from or to an address that holds no block, is a memory fault.
\<close>

definition memcpy_cells :: "interp \<Rightarrow> addr \<Rightarrow> addr \<Rightarrow> INTVAL \<Rightarrow> error + interp" where
  "memcpy_cells i dst src n =
     (if n = 0 then Inr i
      else case (arrays i dst, arrays i src) of
        (Some d, Some s) \<Rightarrow>
          if 0 < n \<and> nat n \<le> length d \<and> nat n \<le> length s
          then Inr (i\<lparr>arrays := (arrays i)(dst \<mapsto> take (nat n) s @ drop (nat n) d)\<rparr>)
          else Inl BadPointer
      | _ \<Rightarrow> Inl BadPointer)"

text \<open>Reading and writing \<open>array[k]\<close>.\<close>

definition load_cell :: "interp \<Rightarrow> addr \<Rightarrow> INTVAL \<Rightarrow> error + Pcc_cell" where
  "load_cell i a k =
     (case arrays i a of
        None \<Rightarrow> Inl BadPointer
      | Some cs \<Rightarrow> if 0 \<le> k \<and> nat k < length cs then Inr (cs ! nat k) else Inl BadPointer)"

definition store_cell :: "interp \<Rightarrow> addr \<Rightarrow> INTVAL \<Rightarrow> Pcc_cell \<Rightarrow> error + interp" where
  "store_cell i a k c =
     (case arrays i a of
        None \<Rightarrow> Inl BadPointer
      | Some cs \<Rightarrow>
          if 0 \<le> k \<and> nat k < length cs
          then Inr (i\<lparr>arrays := (arrays i)(a \<mapsto> cs[nat k := c])\<rparr>)
          else Inl BadPointer)"

text \<open>
  \<open>ensure_positionals_storage\<close>. The cast of the raw block to \<open>Pcc_cell *\<close> makes it a
  block of \<open>size\<close> cells, all uninitialised.
\<close>

definition ensure_positionals_storage ::
  "interp \<Rightarrow> Parrot_Signature \<Rightarrow> INTVAL \<Rightarrow> error + (interp \<times> Parrot_Signature)" where
  "ensure_positionals_storage i self size0 =
     (if size0 \<le> allocated_positionals self then Inr (i, self)
      else
        let size = (if size0 < 8 then 8 else size0);
            (new_array, i1) =
              (if size > 8
               then Parrot_gc_allocate_memory_chunk i (nat size * sizeof_Pcc_cell)
               else Parrot_gc_allocate_fixed_size_storage i (nat size * sizeof_Pcc_cell));
            i2 = i1\<lparr>arrays := (arrays i1)(new_array \<mapsto> replicate (nat size) NOCELL)\<rparr>
        in if positionals self \<noteq> NULL then
             (case memcpy_cells i2 new_array (positionals self) (num_positionals self) of
                Inl e \<Rightarrow> Inl e
              | Inr i3 \<Rightarrow>
                  let i4 =
                    (if allocated_positionals self > 8
                     then Parrot_gc_free_memory_chunk i3 (positionals self)
                     else Parrot_gc_free_fixed_size_storage i3
                            (nat (allocated_positionals self) * sizeof_Pcc_cell)
                            (positionals self))
                  in Inr (i4, self\<lparr>allocated_positionals := size, positionals := new_array\<rparr>))
           else Inr (i2, self\<lparr>allocated_positionals := size, positionals := new_array\<rparr>))"

definition Parrot_pcc_signature_num_positionals :: "interp \<Rightarrow> Parrot_Signature \<Rightarrow> INTVAL" where
  "Parrot_pcc_signature_num_positionals i self = num_positionals self"

text \<open>
  The four positional pushes. Payload and tag are written to \<open>positionals[num_pos]\<close>,
  then the count is incremented.
\<close>

definition Parrot_pcc_signature_push_integer ::
  "interp \<Rightarrow> Parrot_Signature \<Rightarrow> INTVAL \<Rightarrow> error + (interp \<times> Parrot_Signature)" where
  "Parrot_pcc_signature_push_integer i self v =
     (let num_pos = num_positionals self
      in case ensure_positionals_storage i self (num_pos + 1) of
           Inl e \<Rightarrow> Inl e
         | Inr (i1, s1) \<Rightarrow>
             (case store_cell i1 (positionals s1) num_pos (INTCELL v) of
                Inl e \<Rightarrow> Inl e
              | Inr i2 \<Rightarrow> Inr (i2, s1\<lparr>num_positionals := num_positionals s1 + 1\<rparr>)))"

definition Parrot_pcc_signature_push_float ::
  "interp \<Rightarrow> Parrot_Signature \<Rightarrow> FLOATVAL \<Rightarrow> error + (interp \<times> Parrot_Signature)" where
  "Parrot_pcc_signature_push_float i self v =
     (let num_pos = num_positionals self
      in case ensure_positionals_storage i self (num_pos + 1) of
           Inl e \<Rightarrow> Inl e
         | Inr (i1, s1) \<Rightarrow>
             (case store_cell i1 (positionals s1) num_pos (FLOATCELL v) of
                Inl e \<Rightarrow> Inl e
              | Inr i2 \<Rightarrow> Inr (i2, s1\<lparr>num_positionals := num_positionals s1 + 1\<rparr>)))"

definition Parrot_pcc_signature_push_string ::
  "interp \<Rightarrow> Parrot_Signature \<Rightarrow> addr \<Rightarrow> error + (interp \<times> Parrot_Signature)" where
  "Parrot_pcc_signature_push_string i self v =
     (let num_pos = num_positionals self
      in case ensure_positionals_storage i self (num_pos + 1) of
           Inl e \<Rightarrow> Inl e
         | Inr (i1, s1) \<Rightarrow>
             (case store_cell i1 (positionals s1) num_pos (STRINGCELL v) of
                Inl e \<Rightarrow> Inl e
              | Inr i2 \<Rightarrow> Inr (i2, s1\<lparr>num_positionals := num_positionals s1 + 1\<rparr>)))"

text \<open>
  Modelled from the spec: \<open>PARROT_ASSERT\<close> is a macro of a header that is not in this
  file; a failed assertion aborts the operation (the push of a reclaimed object "must
  abort rather than silently proceed").
\<close>

definition Parrot_pcc_signature_push_pmc ::
  "interp \<Rightarrow> Parrot_Signature \<Rightarrow> addr \<Rightarrow> error + (interp \<times> Parrot_Signature)" where
  "Parrot_pcc_signature_push_pmc i self v =
     (let num_pos = num_positionals self
      in if \<not> (\<not> PObj_on_free_list_TEST i v) then Inl AssertFailed
         else case ensure_positionals_storage i self (num_pos + 1) of
           Inl e \<Rightarrow> Inl e
         | Inr (i1, s1) \<Rightarrow>
             (case store_cell i1 (positionals s1) num_pos (PMCCELL v) of
                Inl e \<Rightarrow> Inl e
              | Inr i2 \<Rightarrow> Inr (i2, s1\<lparr>num_positionals := num_positionals s1 + 1\<rparr>)))"

subsection \<open>Autoboxing\<close>

text \<open>
  The C cast \<open>(INTVAL) x\<close> of a float discards the fraction. A value outside the range
  of \<open>INTVAL\<close> has no defined result in C; the model gives \<open>INTVAL_MIN\<close> there, which is
  what the conversion instruction of x86-64 delivers.
\<close>

definition trunc_toward_zero :: "real \<Rightarrow> int" where
  "trunc_toward_zero x = (if 0 \<le> x then \<lfloor>x\<rfloor> else \<lceil>x\<rceil>)"

definition INTVAL_of_FLOATVAL :: "FLOATVAL \<Rightarrow> INTVAL" where
  "INTVAL_of_FLOATVAL x =
     (let t = trunc_toward_zero x
      in if INTVAL_MIN \<le> t \<and> t \<le> INTVAL_MAX then t else INTVAL_MIN)"

text \<open>
  The C cast \<open>(FLOATVAL) v\<close> of an integer gives the double nearest to \<open>v\<close>, a tie going
  to the one whose significand is even. A double has a significand of 53 bits: for a
  magnitude \<open>a\<close> below \<open>2 ^ 64\<close>, \<open>double_ulp_exp a\<close> is the number of low bits that do
  not fit (0 when \<open>a < 2 ^ 53\<close>), \<open>q\<close> the bits that are kept, \<open>r\<close> the bits that are
  dropped, and the kept bits are incremented when the dropped ones are more than
  half a unit, or exactly half with \<open>q\<close> odd.
\<close>

definition double_ulp_exp :: "int \<Rightarrow> nat" where
  "double_ulp_exp a =
     length (filter (\<lambda>e. 2 ^ (53 + e) \<le> a) [0, 1, 2, 3, 4, 5, 6, 7, 8, 9, 10])"

definition FLOATVAL_of_INTVAL :: "INTVAL \<Rightarrow> FLOATVAL" where
  "FLOATVAL_of_INTVAL v =
     (let a = \<bar>v\<bar>;
          e = double_ulp_exp a;
          q = a div 2 ^ e;
          r = a mod 2 ^ e;
          q' = (if 2 * r > 2 ^ e \<or> (2 * r = 2 ^ e \<and> odd q) then q + 1 else q)
      in real_of_int (sgn v * (q' * 2 ^ e)))"

text \<open>
  Modelled from the spec: \<open>Parrot_str_to_int\<close> belongs to the string library, which is not
  in this file. It parses the text as an integer and gives 0 when the text is
  unparsable: here a text is an integer when it is an optional sign followed by one or
  more decimal digits.
\<close>

definition is_digit :: "char \<Rightarrow> bool" where
  "is_digit c \<longleftrightarrow> 48 \<le> (of_char c :: nat) \<and> (of_char c :: nat) \<le> 57"

fun digits_value :: "nat \<Rightarrow> string \<Rightarrow> nat" where
  "digits_value acc [] = acc"
| "digits_value acc (c # cs) = digits_value (10 * acc + (of_char c - 48)) cs"

definition parse_integer :: "string \<Rightarrow> int" where
  "parse_integer t =
     (let (neg, ds) =
        (case t of
           [] \<Rightarrow> (False, [])
         | c # cs \<Rightarrow> if c = CHR ''-'' then (True, cs)
                     else if c = CHR ''+'' then (False, cs) else (False, t))
      in if ds \<noteq> [] \<and> list_all is_digit ds
         then (if neg then - int (digits_value 0 ds) else int (digits_value 0 ds))
         else 0)"

definition Parrot_str_to_int :: "interp \<Rightarrow> addr \<Rightarrow> INTVAL" where
  "Parrot_str_to_int i s = parse_integer (str_text i s)"

fun autobox_intval :: "interp \<Rightarrow> Pcc_cell \<Rightarrow> INTVAL" where
  "autobox_intval i (INTCELL v) = v"
| "autobox_intval i (FLOATCELL n) = INTVAL_of_FLOATVAL n"
| "autobox_intval i (STRINGCELL s) = (if s \<noteq> NULL then Parrot_str_to_int i s else 0)"
| "autobox_intval i (PMCCELL p) = VTABLE_get_integer i p"
| "autobox_intval i NOCELL = 0"

fun autobox_floatval :: "interp \<Rightarrow> Pcc_cell \<Rightarrow> FLOATVAL" where
  "autobox_floatval i (INTCELL v) = FLOATVAL_of_INTVAL v"
| "autobox_floatval i (FLOATCELL n) = n"
| "autobox_floatval i (STRINGCELL s) = (if s \<noteq> NULL then Parrot_str_to_num i s else 0)"
| "autobox_floatval i (PMCCELL p) = VTABLE_get_number i p"
| "autobox_floatval i NOCELL = 0"

fun autobox_string :: "interp \<Rightarrow> Pcc_cell \<Rightarrow> addr" where
  "autobox_string i (INTCELL v) = Parrot_str_from_int i v"
| "autobox_string i (FLOATCELL n) = Parrot_str_from_num i n"
| "autobox_string i (STRINGCELL s) = s"
| "autobox_string i (PMCCELL p) = VTABLE_get_string i p"
| "autobox_string i NOCELL = STRINGNULL"

fun autobox_pmc :: "interp \<Rightarrow> Pcc_cell \<Rightarrow> addr" where
  "autobox_pmc i (INTCELL v) = Parrot_pmc_box_integer i v"
| "autobox_pmc i (FLOATCELL n) = Parrot_pmc_box_number i n"
| "autobox_pmc i (STRINGCELL s) = Parrot_pmc_box_string i s"
| "autobox_pmc i (PMCCELL p) = p"
| "autobox_pmc i NOCELL = PMCNULL"

subsection \<open>Positional reads\<close>

definition Parrot_pcc_signature_get_integer ::
  "interp \<Rightarrow> Parrot_Signature \<Rightarrow> INTVAL \<Rightarrow> error + INTVAL" where
  "Parrot_pcc_signature_get_integer i self key =
     (if key \<ge> num_positionals self \<or> key < 0 then Inr 0
      else case load_cell i (positionals self) key of
             Inl e \<Rightarrow> Inl e
           | Inr c \<Rightarrow> Inr (autobox_intval i c))"

definition Parrot_pcc_signature_get_number ::
  "interp \<Rightarrow> Parrot_Signature \<Rightarrow> INTVAL \<Rightarrow> error + FLOATVAL" where
  "Parrot_pcc_signature_get_number i self key =
     (if key \<ge> num_positionals self \<or> key < 0 then Inr 0
      else case load_cell i (positionals self) key of
             Inl e \<Rightarrow> Inl e
           | Inr c \<Rightarrow> Inr (autobox_floatval i c))"

definition Parrot_pcc_signature_get_string ::
  "interp \<Rightarrow> Parrot_Signature \<Rightarrow> INTVAL \<Rightarrow> error + addr" where
  "Parrot_pcc_signature_get_string i self key =
     (if key \<ge> num_positionals self \<or> key < 0 then Inr STRINGNULL
      else case load_cell i (positionals self) key of
             Inl e \<Rightarrow> Inl e
           | Inr c \<Rightarrow> Inr (autobox_string i c))"

definition Parrot_pcc_signature_get_pmc ::
  "interp \<Rightarrow> Parrot_Signature \<Rightarrow> INTVAL \<Rightarrow> error + addr" where
  "Parrot_pcc_signature_get_pmc i self key =
     (if key \<ge> num_positionals self \<or> key < 0 then Inr PMCNULL
      else case load_cell i (positionals self) key of
             Inl e \<Rightarrow> Inl e
           | Inr c \<Rightarrow> Inr (autobox_pmc i c))"

subsection \<open>The named store\<close>

text \<open>
  Modelled from the spec: "a generic hash-table abstraction supporting text keys and
  iteration", whose code is not in this file. A table is the list of its buckets, each a
  key (a string object) and a value (the address of a cell), in iteration order; two
  keys are the same key when their texts are equal. \<open>Parrot_hash_get\<close> returns the
  value stored under the key or the null pointer, \<open>Parrot_hash_exists\<close> 1 or 0,
  \<open>Parrot_hash_put\<close> replaces the value of the key or adds a bucket,
  \<open>Parrot_hash_key_from_string\<close> is the key itself in a table keyed by strings,
  \<open>Parrot_hash_create\<close> makes an empty table and \<open>Parrot_hash_clone\<close> puts every bucket
  of one table into another.
\<close>

fun bucket_find :: "interp \<Rightarrow> (addr \<times> addr) list \<Rightarrow> addr \<Rightarrow> addr option" where
  "bucket_find i [] k = None"
| "bucket_find i ((k', v) # bs) k =
     (if str_text i k' = str_text i k then Some v else bucket_find i bs k)"

fun bucket_put :: "interp \<Rightarrow> (addr \<times> addr) list \<Rightarrow> addr \<Rightarrow> addr \<Rightarrow> (addr \<times> addr) list" where
  "bucket_put i [] k v = [(k, v)]"
| "bucket_put i ((k', v') # bs) k v =
     (if str_text i k' = str_text i k then (k', v) # bs else (k', v') # bucket_put i bs k v)"

definition Parrot_hash_key_from_string :: "interp \<Rightarrow> addr \<Rightarrow> addr \<Rightarrow> addr" where
  "Parrot_hash_key_from_string i h key = key"

definition Parrot_hash_get :: "interp \<Rightarrow> addr \<Rightarrow> addr \<Rightarrow> error + addr" where
  "Parrot_hash_get i h k =
     (case hashes i h of
        None \<Rightarrow> Inl BadPointer
      | Some bs \<Rightarrow> Inr (case bucket_find i bs k of None \<Rightarrow> NULL | Some v \<Rightarrow> v))"

definition Parrot_hash_exists :: "interp \<Rightarrow> addr \<Rightarrow> addr \<Rightarrow> error + INTVAL" where
  "Parrot_hash_exists i h k =
     (case hashes i h of
        None \<Rightarrow> Inl BadPointer
      | Some bs \<Rightarrow> Inr (case bucket_find i bs k of None \<Rightarrow> 0 | Some v \<Rightarrow> 1))"

definition Parrot_hash_put :: "interp \<Rightarrow> addr \<Rightarrow> addr \<Rightarrow> addr \<Rightarrow> error + interp" where
  "Parrot_hash_put i h k v =
     (case hashes i h of
        None \<Rightarrow> Inl BadPointer
      | Some bs \<Rightarrow> Inr (i\<lparr>hashes := (hashes i)(h \<mapsto> bucket_put i bs k v)\<rparr>))"

definition Parrot_hash_create :: "interp \<Rightarrow> addr \<times> interp" where
  "Parrot_hash_create i =
     (Suc (brk i), i\<lparr>brk := Suc (brk i), hashes := (hashes i)(Suc (brk i) \<mapsto> [])\<rparr>)"

definition Parrot_hash_clone :: "interp \<Rightarrow> addr \<Rightarrow> addr \<Rightarrow> error + interp" where
  "Parrot_hash_clone i src dst =
     (case (hashes i src, hashes i dst) of
        (Some bs, Some ds) \<Rightarrow>
          Inr (i\<lparr>hashes := (hashes i)(dst \<mapsto> fold (\<lambda>(k, v) acc. bucket_put i acc k v) bs ds)\<rparr>)
      | _ \<Rightarrow> Inl BadPointer)"

text \<open>
  Modelled from the spec: \<open>ALLOC_CELL\<close> and \<open>CLONE_CELL\<close> are macros of a header that is
  not in this file. A named cell is one allocation from the fixed-size pool;
  \<open>ALLOC_CELL\<close> gives a zero-initialised cell, which no caller reads before writing it,
  and \<open>CLONE_CELL\<close> a new cell with the contents of the given one.
\<close>

definition ALLOC_CELL :: "interp \<Rightarrow> addr \<times> interp" where
  "ALLOC_CELL i =
     (let (c, i1) = Parrot_gc_allocate_fixed_size_storage i sizeof_Pcc_cell
      in (c, i1\<lparr>cells := (cells i1)(c \<mapsto> NOCELL)\<rparr>))"

definition CLONE_CELL :: "interp \<Rightarrow> addr \<Rightarrow> error + (addr \<times> interp)" where
  "CLONE_CELL i src =
     (case cells i src of
        None \<Rightarrow> Inl BadPointer
      | Some c \<Rightarrow> let (tmp, i1) = ALLOC_CELL i in Inr (tmp, i1\<lparr>cells := (cells i1)(tmp \<mapsto> c)\<rparr>))"

text \<open>
  \<open>get_cell_named\<close> looks the key up in \<open>self->hash\<close> as it is; it does not go through
  \<open>get_hash\<close>, so the table must exist already.
\<close>

definition get_cell_named :: "interp \<Rightarrow> Parrot_Signature \<Rightarrow> addr \<Rightarrow> error + (addr \<times> interp)" where
  "get_cell_named i self key =
     (case Parrot_hash_get i (hash self) key of
        Inl e \<Rightarrow> Inl e
      | Inr cell \<Rightarrow>
          if cell = NULL then
            (let (cell', i1) = ALLOC_CELL i
             in case Parrot_hash_put i1 (hash self) key cell' of
                  Inl e \<Rightarrow> Inl e
                | Inr i2 \<Rightarrow> Inr (cell', i2))
          else Inr (cell, i))"

text \<open>Writing payload and tag through a cell pointer.\<close>

definition write_cell :: "interp \<Rightarrow> addr \<Rightarrow> Pcc_cell \<Rightarrow> error + interp" where
  "write_cell i cell c =
     (case cells i cell of
        None \<Rightarrow> Inl BadPointer
      | Some old \<Rightarrow> Inr (i\<lparr>cells := (cells i)(cell \<mapsto> c)\<rparr>))"

definition Parrot_pcc_signature_push_integer_named ::
  "interp \<Rightarrow> Parrot_Signature \<Rightarrow> addr \<Rightarrow> INTVAL \<Rightarrow> error + interp" where
  "Parrot_pcc_signature_push_integer_named i self key v =
     (case get_cell_named i self key of
        Inl e \<Rightarrow> Inl e
      | Inr (cell, i1) \<Rightarrow> write_cell i1 cell (INTCELL v))"

definition Parrot_pcc_signature_push_number_named ::
  "interp \<Rightarrow> Parrot_Signature \<Rightarrow> addr \<Rightarrow> FLOATVAL \<Rightarrow> error + interp" where
  "Parrot_pcc_signature_push_number_named i self key v =
     (case get_cell_named i self key of
        Inl e \<Rightarrow> Inl e
      | Inr (cell, i1) \<Rightarrow> write_cell i1 cell (FLOATCELL v))"

definition Parrot_pcc_signature_push_string_named ::
  "interp \<Rightarrow> Parrot_Signature \<Rightarrow> addr \<Rightarrow> addr \<Rightarrow> error + interp" where
  "Parrot_pcc_signature_push_string_named i self key v =
     (case get_cell_named i self key of
        Inl e \<Rightarrow> Inl e
      | Inr (cell, i1) \<Rightarrow> write_cell i1 cell (STRINGCELL v))"

definition Parrot_pcc_signature_push_pmc_named ::
  "interp \<Rightarrow> Parrot_Signature \<Rightarrow> addr \<Rightarrow> addr \<Rightarrow> error + interp" where
  "Parrot_pcc_signature_push_pmc_named i self key v =
     (case get_cell_named i self key of
        Inl e \<Rightarrow> Inl e
      | Inr (cell, i1) \<Rightarrow> write_cell i1 cell (PMCCELL v))"

text \<open>The named reads. A read follows \<open>self->hash\<close> whenever it is not the null pointer.\<close>

definition Parrot_pcc_signature_get_integer_named ::
  "interp \<Rightarrow> Parrot_Signature \<Rightarrow> addr \<Rightarrow> error + INTVAL" where
  "Parrot_pcc_signature_get_integer_named i self key =
     (if hash self \<noteq> NULL then
        (let k = Parrot_hash_key_from_string i (hash self) key
         in case Parrot_hash_get i (hash self) k of
              Inl e \<Rightarrow> Inl e
            | Inr cell \<Rightarrow>
                if cell \<noteq> NULL then
                  (case cells i cell of
                     None \<Rightarrow> Inl BadPointer
                   | Some c \<Rightarrow>
                       (case c of
                          INTCELL v \<Rightarrow> Inr v
                        | _ \<Rightarrow> Inr (autobox_intval i c)))
                else Inr 0)
      else Inr 0)"

definition Parrot_pcc_signature_get_number_named ::
  "interp \<Rightarrow> Parrot_Signature \<Rightarrow> addr \<Rightarrow> error + FLOATVAL" where
  "Parrot_pcc_signature_get_number_named i self key =
     (if hash self \<noteq> NULL then
        (let k = Parrot_hash_key_from_string i (hash self) key
         in case Parrot_hash_get i (hash self) k of
              Inl e \<Rightarrow> Inl e
            | Inr cell \<Rightarrow>
                if cell \<noteq> NULL then
                  (case cells i cell of
                     None \<Rightarrow> Inl BadPointer
                   | Some c \<Rightarrow> Inr (autobox_floatval i c))
                else Inr 0)
      else Inr 0)"

definition Parrot_pcc_signature_get_string_named ::
  "interp \<Rightarrow> Parrot_Signature \<Rightarrow> addr \<Rightarrow> error + addr" where
  "Parrot_pcc_signature_get_string_named i self key =
     (if hash self \<noteq> NULL then
        (let k = Parrot_hash_key_from_string i (hash self) key
         in case Parrot_hash_get i (hash self) k of
              Inl e \<Rightarrow> Inl e
            | Inr cell \<Rightarrow>
                if cell \<noteq> NULL then
                  (case cells i cell of
                     None \<Rightarrow> Inl BadPointer
                   | Some c \<Rightarrow> Inr (autobox_string i c))
                else Inr STRINGNULL)
      else Inr STRINGNULL)"

definition Parrot_pcc_signature_get_pmc_named ::
  "interp \<Rightarrow> Parrot_Signature \<Rightarrow> addr \<Rightarrow> error + addr" where
  "Parrot_pcc_signature_get_pmc_named i self key =
     (if hash self \<noteq> NULL then
        (let k = Parrot_hash_key_from_string i (hash self) key
         in case Parrot_hash_get i (hash self) k of
              Inl e \<Rightarrow> Inl e
            | Inr cell \<Rightarrow>
                if cell \<noteq> NULL then
                  (case cells i cell of
                     None \<Rightarrow> Inl BadPointer
                   | Some c \<Rightarrow>
                       (case c of
                          PMCCELL p \<Rightarrow> Inr p
                        | _ \<Rightarrow> Inr (autobox_pmc i c)))
                else Inr PMCNULL)
      else Inr PMCNULL)"

definition Parrot_pcc_signature_exists_named ::
  "interp \<Rightarrow> Parrot_Signature \<Rightarrow> addr \<Rightarrow> error + INTVAL" where
  "Parrot_pcc_signature_exists_named i self key =
     (if hash self \<noteq> NULL then
        (let k = Parrot_hash_key_from_string i (hash self) key
         in Parrot_hash_exists i (hash self) k)
      else Inr 0)"

text \<open>
  \<open>get_hash\<close>: the table of the aggregate, created when the field is the null pointer.
  The attribute accessors \<open>GETATTR_CallContext_hash\<close> and \<open>SETATTR_CallContext_hash\<close>
  read and write the field \<open>hash\<close>.
\<close>

definition get_hash :: "interp \<Rightarrow> Parrot_Signature \<Rightarrow> addr \<times> interp \<times> Parrot_Signature" where
  "get_hash i SELF =
     (if hash SELF = NULL then
        (let (h, i1) = Parrot_hash_create i in (h, i1, SELF\<lparr>hash := h\<rparr>))
      else (hash SELF, i, SELF))"

subsection \<open>Marking\<close>

text \<open>
  Modelled from the spec: \<open>mark_reachable(reference)\<close> "informs the collector that a Text
  or Object reference is live"; each call is recorded in \<open>mark_log\<close>.
  \<open>parrot_hash_iterate\<close> runs its body once for each bucket of the table.
\<close>

definition Parrot_gc_mark_STRING_alive :: "interp \<Rightarrow> addr \<Rightarrow> interp" where
  "Parrot_gc_mark_STRING_alive i s = i\<lparr>mark_log := mark_log i @ [StringRef s]\<rparr>"

definition Parrot_gc_mark_PMC_alive :: "interp \<Rightarrow> addr \<Rightarrow> interp" where
  "Parrot_gc_mark_PMC_alive i p = i\<lparr>mark_log := mark_log i @ [PMCRef p]\<rparr>"

definition PMC_IS_NULL :: "addr \<Rightarrow> bool" where
  "PMC_IS_NULL p \<longleftrightarrow> p = PMCNULL"

fun mark_cell :: "interp \<Rightarrow> Pcc_cell \<Rightarrow> interp" where
  "mark_cell i (STRINGCELL s) = (if s \<noteq> NULL then Parrot_gc_mark_STRING_alive i s else i)"
| "mark_cell i (PMCCELL p) = (if \<not> PMC_IS_NULL p then Parrot_gc_mark_PMC_alive i p else i)"
| "mark_cell i (INTCELL v) = i"
| "mark_cell i (FLOATCELL n) = i"
| "mark_cell i NOCELL = i"

function mark_positionals_from :: "interp \<Rightarrow> Parrot_Signature \<Rightarrow> INTVAL \<Rightarrow> error + interp" where
  "mark_positionals_from i self k =
     (if k < num_positionals self then
        (case load_cell i (positionals self) k of
           Inl e \<Rightarrow> Inl e
         | Inr c \<Rightarrow> mark_positionals_from (mark_cell i c) self (k + 1))
      else Inr i)"
  by pat_completeness auto
termination
  by (relation "measure (\<lambda>(i, self, k). nat (num_positionals self - k))") auto

definition mark_positionals :: "interp \<Rightarrow> Parrot_Signature \<Rightarrow> error + interp" where
  "mark_positionals i self = mark_positionals_from i self 0"

fun mark_buckets :: "interp \<Rightarrow> (addr \<times> addr) list \<Rightarrow> error + interp" where
  "mark_buckets i [] = Inr i"
| "mark_buckets i ((key, val) # bs) =
     (let i1 = Parrot_gc_mark_STRING_alive i key
      in case cells i1 val of
           None \<Rightarrow> Inl BadPointer
         | Some c \<Rightarrow> mark_buckets (mark_cell i1 c) bs)"

definition mark_hash :: "interp \<Rightarrow> addr \<Rightarrow> error + interp" where
  "mark_hash i h =
     (case hashes i h of
        None \<Rightarrow> Inl BadPointer
      | Some bs \<Rightarrow> mark_buckets i bs)"

subsection \<open>Clone\<close>

text \<open>
  \<open>Parrot_pcc_signature_clone\<close>, statement by statement. \<open>dest->short_sig = interp,
  self->short_sig;\<close> is a comma expression: it assigns \<open>interp\<close> and discards
  \<open>self->short_sig\<close>. In the branch for the named store the source names \<open>hash\<close> where
  only \<open>self->hash\<close> can be meant, and the loop replaces the value of every bucket of
  the new table with a clone of its cell. The body ends without a \<open>return\<close>
  statement, so the caller receives no Signature: the result is \<open>None\<close> together with
  the interpreter state the body leaves behind.
\<close>

fun clone_bucket_values :: "interp \<Rightarrow> (addr \<times> addr) list \<Rightarrow> error + ((addr \<times> addr) list \<times> interp)" where
  "clone_bucket_values i [] = Inr ([], i)"
| "clone_bucket_values i ((key, val) # bs) =
     (case CLONE_CELL i val of
        Inl e \<Rightarrow> Inl e
      | Inr (tmp, i1) \<Rightarrow>
          (case clone_bucket_values i1 bs of
             Inl e \<Rightarrow> Inl e
           | Inr (bs', i2) \<Rightarrow> Inr ((key, tmp) # bs', i2)))"

definition Parrot_pcc_signature_clone ::
  "interp \<Rightarrow> Parrot_Signature \<Rightarrow> error + (Parrot_Signature option \<times> interp)" where
  "Parrot_pcc_signature_clone i self =
     (let (dest0, i0) = Parrot_pcc_signature_new i
      in case ensure_positionals_storage i0 dest0 (num_positionals self) of
           Inl e \<Rightarrow> Inl e
         | Inr (i1, dest1) \<Rightarrow>
             (case memcpy_cells i1 (positionals dest1) (positionals self) (num_positionals self) of
                Inl e \<Rightarrow> Inl e
              | Inr i2 \<Rightarrow>
                  let dest2 = dest1\<lparr>num_positionals := num_positionals self,
                                    type_tuple := VTABLE_clone i2 (type_tuple self),
                                    short_sig := interp_addr i2,
                                    arg_flags := VTABLE_clone i2 (arg_flags self),
                                    return_flags := VTABLE_clone i2 (return_flags self)\<rparr>
                  in if hash self \<noteq> NULL then
                       (let (dest_hash, i3, dest3) = get_hash i2 dest2
                        in case Parrot_hash_clone i3 (hash self) dest_hash of
                             Inl e \<Rightarrow> Inl e
                           | Inr i4 \<Rightarrow>
                               (case hashes i4 dest_hash of
                                  None \<Rightarrow> Inl BadPointer
                                | Some bs \<Rightarrow>
                                    (case clone_bucket_values i4 bs of
                                       Inl e \<Rightarrow> Inl e
                                     | Inr (bs', i5) \<Rightarrow>
                                         Inr (None, i5\<lparr>hashes := (hashes i5)(dest_hash \<mapsto> bs')\<rparr>))))
                     else Inr (None, i2)))"

subsection \<open>Sequences of pushes\<close>

text \<open>A positional push of one of the four kinds, and a sequence of them in order.\<close>

datatype push = PushInteger INTVAL | PushFloat FLOATVAL | PushString addr | PushPMC addr

fun do_push :: "interp \<Rightarrow> Parrot_Signature \<Rightarrow> push \<Rightarrow> error + (interp \<times> Parrot_Signature)" where
  "do_push i s (PushInteger v) = Parrot_pcc_signature_push_integer i s v"
| "do_push i s (PushFloat v) = Parrot_pcc_signature_push_float i s v"
| "do_push i s (PushString v) = Parrot_pcc_signature_push_string i s v"
| "do_push i s (PushPMC v) = Parrot_pcc_signature_push_pmc i s v"

fun do_pushes :: "interp \<Rightarrow> Parrot_Signature \<Rightarrow> push list \<Rightarrow> error + (interp \<times> Parrot_Signature)" where
  "do_pushes i s [] = Inr (i, s)"
| "do_pushes i s (p # ps) =
     (case do_push i s p of
        Inl e \<Rightarrow> Inl e
      | Inr (i', s') \<Rightarrow> do_pushes i' s' ps)"

text \<open>Reading index \<open>k\<close> with the getter of the kind that was pushed gives the pushed value.\<close>

fun reads_back :: "interp \<Rightarrow> Parrot_Signature \<Rightarrow> INTVAL \<Rightarrow> push \<Rightarrow> bool" where
  "reads_back i s k (PushInteger v) \<longleftrightarrow> Parrot_pcc_signature_get_integer i s k = Inr v"
| "reads_back i s k (PushFloat v) \<longleftrightarrow> Parrot_pcc_signature_get_number i s k = Inr v"
| "reads_back i s k (PushString v) \<longleftrightarrow> Parrot_pcc_signature_get_string i s k = Inr v"
| "reads_back i s k (PushPMC v) \<longleftrightarrow> Parrot_pcc_signature_get_pmc i s k = Inr v"

subsection \<open>Invariant of the positional store\<close>

text \<open>
  The four positional pushes have one shape; \<open>push_cell\<close> is that shape with the cell
  written as a parameter, and \<open>cell_of\<close> the cell each kind of push writes. A push of an
  object goes through only when the object is not on the free list (\<open>push_alive\<close>).
  \<open>sig_ok\<close> is the invariant of the positional store: the count is between 0 and the
  capacity, a capacity of 0 goes with no array, any other capacity with a mapped
  block of that many cells at an address the allocator has handed out. \<open>live_cells\<close>
  are the cells at the indices below the count.
\<close>

definition push_cell ::
  "interp \<Rightarrow> Parrot_Signature \<Rightarrow> Pcc_cell \<Rightarrow> error + (interp \<times> Parrot_Signature)" where
  "push_cell i self c =
     (let num_pos = num_positionals self
      in case ensure_positionals_storage i self (num_pos + 1) of
           Inl e \<Rightarrow> Inl e
         | Inr (i1, s1) \<Rightarrow>
             (case store_cell i1 (positionals s1) num_pos c of
                Inl e \<Rightarrow> Inl e
              | Inr i2 \<Rightarrow> Inr (i2, s1\<lparr>num_positionals := num_positionals s1 + 1\<rparr>)))"

fun cell_of :: "push \<Rightarrow> Pcc_cell" where
  "cell_of (PushInteger v) = INTCELL v"
| "cell_of (PushFloat v) = FLOATCELL v"
| "cell_of (PushString v) = STRINGCELL v"
| "cell_of (PushPMC v) = PMCCELL v"

fun push_alive :: "interp \<Rightarrow> push \<Rightarrow> bool" where
  "push_alive i (PushPMC v) = (\<not> PObj_on_free_list_TEST i v)"
| "push_alive i p = True"

definition sig_ok :: "interp \<Rightarrow> Parrot_Signature \<Rightarrow> bool" where
  "sig_ok i s \<longleftrightarrow>
     0 \<le> num_positionals s \<and> num_positionals s \<le> allocated_positionals s \<and>
     positionals s \<le> brk i \<and>
     (if allocated_positionals s = 0 then positionals s = NULL
      else positionals s \<noteq> NULL \<and>
           (case arrays i (positionals s) of
              None \<Rightarrow> False
            | Some cs \<Rightarrow> int (length cs) = allocated_positionals s))"

definition live_cells :: "interp \<Rightarrow> Parrot_Signature \<Rightarrow> Pcc_cell list" where
  "live_cells i s =
     (case arrays i (positionals s) of
        None \<Rightarrow> []
      | Some cs \<Rightarrow> take (nat (num_positionals s)) cs)"

subsection \<open>Named pushes and the invariant of the named store\<close>

text \<open>
  A named push of one of the four kinds and the read of the same kind. \<open>entries_for\<close>
  are the buckets of a table whose key has the text of the given key. \<open>table_ok\<close> is
  the invariant of a table: no two buckets have keys of the same text, and every
  bucket's value is the address of an allocated cell. \<open>named_ok\<close>: the Signature has a
  table and the table is well formed.
\<close>

fun do_push_named :: "interp \<Rightarrow> Parrot_Signature \<Rightarrow> addr \<Rightarrow> push \<Rightarrow> error + interp" where
  "do_push_named i s key (PushInteger v) = Parrot_pcc_signature_push_integer_named i s key v"
| "do_push_named i s key (PushFloat v) = Parrot_pcc_signature_push_number_named i s key v"
| "do_push_named i s key (PushString v) = Parrot_pcc_signature_push_string_named i s key v"
| "do_push_named i s key (PushPMC v) = Parrot_pcc_signature_push_pmc_named i s key v"

fun reads_back_named :: "interp \<Rightarrow> Parrot_Signature \<Rightarrow> addr \<Rightarrow> push \<Rightarrow> bool" where
  "reads_back_named i s key (PushInteger v) \<longleftrightarrow>
     Parrot_pcc_signature_get_integer_named i s key = Inr v"
| "reads_back_named i s key (PushFloat v) \<longleftrightarrow>
     Parrot_pcc_signature_get_number_named i s key = Inr v"
| "reads_back_named i s key (PushString v) \<longleftrightarrow>
     Parrot_pcc_signature_get_string_named i s key = Inr v"
| "reads_back_named i s key (PushPMC v) \<longleftrightarrow>
     Parrot_pcc_signature_get_pmc_named i s key = Inr v"

definition entries_for :: "interp \<Rightarrow> (addr \<times> addr) list \<Rightarrow> addr \<Rightarrow> (addr \<times> addr) list" where
  "entries_for i bs key = filter (\<lambda>b. str_text i (fst b) = str_text i key) bs"

definition table_ok :: "interp \<Rightarrow> (addr \<times> addr) list \<Rightarrow> bool" where
  "table_ok i bs \<longleftrightarrow>
     distinct (map (\<lambda>b. str_text i (fst b)) bs) \<and>
     list_all (\<lambda>b. snd b \<noteq> NULL \<and> snd b \<le> brk i \<and> cells i (snd b) \<noteq> None) bs"

definition named_ok :: "interp \<Rightarrow> Parrot_Signature \<Rightarrow> bool" where
  "named_ok i s \<longleftrightarrow>
     (case hashes i (hash s) of None \<Rightarrow> False | Some bs \<Rightarrow> hash s \<noteq> NULL \<and> table_ok i bs)"

subsection \<open>The references a Signature holds\<close>

text \<open>
  What the collector has to be told. A cell holds a reference when it is a Text or an
  Object cell whose pointer is not null; a bucket of the named table holds its key and
  what its cell holds. \<open>held_refs\<close> is the multiset of the references held by the
  positional cells below the count and by the buckets of the named table, one
  occurrence for each cell or key that holds it.
\<close>

fun cell_refs :: "Pcc_cell \<Rightarrow> gc_ref list" where
  "cell_refs (STRINGCELL s) = (if s = NULL then [] else [StringRef s])"
| "cell_refs (PMCCELL p) = (if p = PMCNULL then [] else [PMCRef p])"
| "cell_refs (INTCELL v) = []"
| "cell_refs (FLOATCELL n) = []"
| "cell_refs NOCELL = []"

definition bucket_refs :: "interp \<Rightarrow> addr \<times> addr \<Rightarrow> gc_ref list" where
  "bucket_refs i b =
     StringRef (fst b) # (case cells i (snd b) of None \<Rightarrow> [] | Some c \<Rightarrow> cell_refs c)"

definition held_refs :: "interp \<Rightarrow> Parrot_Signature \<Rightarrow> gc_ref multiset" where
  "held_refs i s =
     mset (concat (map cell_refs (live_cells i s))) +
     (case hashes i (hash s) of
        None \<Rightarrow> {#}
      | Some bs \<Rightarrow> mset (concat (map (bucket_refs i) bs)))"

subsection \<open>Concrete states\<close>

text \<open>
  An interpreter with empty stores and a Signature in the fresh state, for evaluating
  the operations on concrete inputs.
\<close>

definition interp0 :: interp where
  "interp0 =
     \<lparr>interp_addr = 4096, brk = 8192,
      arrays = Map.empty, cells = Map.empty, hashes = Map.empty,
      alloc_log = [], mark_log = [],
      str_text = (\<lambda>a. if a = 101 then ''42'' else if a = 102 then ''abc''
                      else if a = 103 then ''x'' else if a = 104 then ''y'' else []),
      Parrot_str_to_num = (\<lambda>a. 0),
      Parrot_str_from_int = (\<lambda>v. 201),
      Parrot_str_from_num = (\<lambda>v. 202),
      Parrot_pmc_box_integer = (\<lambda>v. 301),
      Parrot_pmc_box_number = (\<lambda>v. 302),
      Parrot_pmc_box_string = (\<lambda>v. 303),
      VTABLE_get_integer = (\<lambda>p. 0),
      VTABLE_get_number = (\<lambda>p. 0),
      VTABLE_get_string = (\<lambda>p. 0),
      VTABLE_clone = (\<lambda>p. p),
      PObj_on_free_list_TEST = (\<lambda>p. p = 666)\<rparr>"

definition sig0 :: Parrot_Signature where
  "sig0 = \<lparr>positionals = NULL, num_positionals = 0, allocated_positionals = 0, hash = NULL,
           type_tuple = NULL, short_sig = NULL, arg_flags = NULL, return_flags = NULL\<rparr>"

text \<open>
  A populated state: five positionals in an array of eight slots, and a named table
  with the keys \<open>x\<close> and \<open>y\<close>.
\<close>

definition interp1 :: interp where
  "interp1 =
     interp0\<lparr>brk := 8200,
       arrays := [8193 \<mapsto> [INTCELL 7, STRINGCELL 101, PMCCELL 500, FLOATCELL 2.5,
                           STRINGCELL NULL, NOCELL, NOCELL, NOCELL]],
       cells := [8194 \<mapsto> INTCELL 1, 8195 \<mapsto> PMCCELL 501],
       hashes := [8196 \<mapsto> [(103, 8194), (104, 8195)]]\<rparr>"

definition sig1 :: Parrot_Signature where
  "sig1 = \<lparr>positionals = 8193, num_positionals = 5, allocated_positionals = 8, hash = 8196,
           type_tuple = NULL, short_sig = NULL, arg_flags = NULL, return_flags = NULL\<rparr>"

text \<open>A Signature with no arguments whose four metadata handles are present.\<close>

definition sig2 :: Parrot_Signature where
  "sig2 = \<lparr>positionals = NULL, num_positionals = 0, allocated_positionals = 0, hash = NULL,
           type_tuple = 700, short_sig = 701, arg_flags = 702, return_flags = 703\<rparr>"

text \<open>Eight pushes of mixed kinds.\<close>

definition eight_pushes :: "push list" where
  "eight_pushes = [PushInteger 1, PushFloat 2.5, PushString 101, PushPMC 500,
                   PushInteger 5, PushInteger 6, PushString NULL, PushPMC 501]"

section \<open>Properties\<close>

subsection \<open>What memset leaves in the aggregate\<close>

lemma eight_Suc: "(8::nat) = Suc (Suc (Suc (Suc (Suc (Suc (Suc (Suc 0)))))))"
  by simp

lemma fill_bytes_8_1: "fill_bytes 8 1 = 72340172838076673"
  by (subst eight_Suc) simp

lemma memset_pointer_1: "memset_pointer 1 = 72340172838076673"
  by (simp only: memset_pointer_def sizeof_pointer_def fill_bytes_8_1)

lemma memset_INTVAL_1: "memset_INTVAL 1 = 72340172838076673"
  by (simp add: memset_INTVAL_def sizeof_INTVAL_def fill_bytes_8_1 INTVAL_MAX_def del: One_nat_def)

lemma memset_1_Suc [simp]:
  "memset_pointer (Suc 0) = 72340172838076673" "memset_INTVAL (Suc 0) = 72340172838076673"
  using memset_pointer_1 memset_INTVAL_1 by simp_all

text \<open>
  C2. \<open>Parrot_pcc_signature_new\<close> is to return a Signature in the fresh state, every
  field zero or absent. Evaluated on any interpreter, it returns an aggregate whose
  every field is the byte pattern \<open>0x0101010101010101\<close>: the count and the capacity are
  72340172838076673, the array pointer, the table pointer and the metadata handles
  are that address, and the state is not fresh.
\<close>

theorem new_is_not_fresh:
  "fst (Parrot_pcc_signature_new i) =
     \<lparr>positionals = 72340172838076673, num_positionals = 72340172838076673,
      allocated_positionals = 72340172838076673, hash = 72340172838076673,
      type_tuple = 72340172838076673, short_sig = 72340172838076673,
      arg_flags = 72340172838076673, return_flags = 72340172838076673\<rparr>
   \<and> \<not> fresh (fst (Parrot_pcc_signature_new i))"
  by (simp add: Parrot_pcc_signature_new_def Parrot_gc_allocate_fixed_size_storage_def
      fresh_def)

subsection \<open>Positional reads out of range\<close>

text \<open>
  C6. For every index \<open>key\<close> with \<open>key \<ge> num_positionals\<close> or \<open>key < 0\<close>, each positional
  getter returns the zero value of its type (0, 0.0, the null text, the null object)
  and no error. The getters have no write in their bodies: they are functions from
  the state to a result, so the Signature is as it was.
\<close>

theorem get_out_of_range:
  "key \<ge> num_positionals self \<or> key < 0 \<Longrightarrow>
     Parrot_pcc_signature_get_integer i self key = Inr 0 \<and>
     Parrot_pcc_signature_get_number i self key = Inr 0 \<and>
     Parrot_pcc_signature_get_string i self key = Inr STRINGNULL \<and>
     Parrot_pcc_signature_get_pmc i self key = Inr PMCNULL"
  by (simp add: Parrot_pcc_signature_get_integer_def Parrot_pcc_signature_get_number_def
      Parrot_pcc_signature_get_string_def Parrot_pcc_signature_get_pmc_def)

theorem get_out_of_range_witness:
  "((5::int) \<ge> num_positionals sig1 \<or> (5::int) < 0) \<and>
   Parrot_pcc_signature_get_integer interp1 sig1 5 = Inr 0 \<and>
   Parrot_pcc_signature_get_number interp1 sig1 5 = Inr 0 \<and>
   Parrot_pcc_signature_get_string interp1 sig1 5 = Inr STRINGNULL \<and>
   Parrot_pcc_signature_get_pmc interp1 sig1 5 = Inr PMCNULL \<and>
   Parrot_pcc_signature_get_integer interp1 sig1 (- 1) = Inr 0"
  using get_out_of_range[of sig1 5 interp1] get_out_of_range[of sig1 "- 1" interp1]
  by (simp add: sig1_def)

subsection \<open>Pushes preserve the invariant and append\<close>

lemma push_integer_cell: "Parrot_pcc_signature_push_integer i s v = push_cell i s (INTCELL v)"
  by (simp add: Parrot_pcc_signature_push_integer_def push_cell_def)
lemma push_float_cell: "Parrot_pcc_signature_push_float i s v = push_cell i s (FLOATCELL v)"
  by (simp add: Parrot_pcc_signature_push_float_def push_cell_def)
lemma push_string_cell: "Parrot_pcc_signature_push_string i s v = push_cell i s (STRINGCELL v)"
  by (simp add: Parrot_pcc_signature_push_string_def push_cell_def)
lemma push_pmc_cell:
  "Parrot_pcc_signature_push_pmc i s v =
     (if PObj_on_free_list_TEST i v then Inl AssertFailed else push_cell i s (PMCCELL v))"
  by (simp add: Parrot_pcc_signature_push_pmc_def push_cell_def)

lemma do_push_cell: "push_alive i p \<Longrightarrow> do_push i s p = push_cell i s (cell_of p)"
  by (cases p) (simp_all add: push_integer_cell push_float_cell push_string_cell push_pmc_cell)

text \<open>The three cases of \<open>ensure_positionals_storage\<close>: enough capacity, the first
  allocation, and growth with a copy.\<close>

lemma ensure_enough:
  "n \<le> allocated_positionals s \<Longrightarrow> ensure_positionals_storage i s n = Inr (i, s)"
  by (simp add: ensure_positionals_storage_def)

lemma ensure_first:
  assumes "positionals s = NULL" "allocated_positionals s < n" "n \<le> 8"
  shows "ensure_positionals_storage i s n =
     Inr (i\<lparr>brk := Suc (brk i),
            alloc_log := alloc_log i @ [AllocFixed (8 * sizeof_Pcc_cell) (Suc (brk i))],
            arrays := (arrays i)(Suc (brk i) \<mapsto> replicate 8 NOCELL)\<rparr>,
          s\<lparr>allocated_positionals := 8, positionals := Suc (brk i)\<rparr>)"
  using assms
  by (auto simp: ensure_positionals_storage_def Let_def
      Parrot_gc_allocate_fixed_size_storage_def)


lemma ensure_grow:
  assumes ok: "sig_ok i s" and gr: "allocated_positionals s < n" and pos: "0 < allocated_positionals s"
  shows "\<exists>i1 s1. ensure_positionals_storage i s n = Inr (i1, s1) \<and> sig_ok i1 s1 \<and>
           n \<le> allocated_positionals s1 \<and> num_positionals s1 = num_positionals s \<and>
           live_cells i1 s1 = live_cells i s \<and>
           PObj_on_free_list_TEST i1 = PObj_on_free_list_TEST i"
proof -
  from ok pos obtain cs where
    cs: "arrays i (positionals s) = Some cs" "int (length cs) = allocated_positionals s"
    and nn: "positionals s \<noteq> NULL" "positionals s \<le> brk i"
    and num: "0 \<le> num_positionals s" "num_positionals s \<le> allocated_positionals s"
    by (auto simp: sig_ok_def split: option.splits if_splits)
  define size where "size = (if n < 8 then 8 else n)"
  have sz: "n \<le> size" "8 \<le> size" "allocated_positionals s < size"
    using gr by (auto simp: size_def)
  define a where "a = Suc (brk i)"
  have ne: "a \<noteq> positionals s" using nn by (simp add: a_def)
  show ?thesis
    using cs nn num sz ne gr
    apply (simp add: ensure_positionals_storage_def Let_def size_def[symmetric] split_def
        Parrot_gc_allocate_memory_chunk_def Parrot_gc_allocate_fixed_size_storage_def
        a_def[symmetric] memcpy_cells_def)
    apply (auto simp: sig_ok_def live_cells_def Parrot_gc_free_memory_chunk_def
        Parrot_gc_free_fixed_size_storage_def a_def)
    done
qed


lemma ensure_ok:
  assumes ok: "sig_ok i s"
  shows "\<exists>i1 s1. ensure_positionals_storage i s n = Inr (i1, s1) \<and> sig_ok i1 s1 \<and>
           n \<le> allocated_positionals s1 \<and> num_positionals s1 = num_positionals s \<and>
           live_cells i1 s1 = live_cells i s \<and>
           PObj_on_free_list_TEST i1 = PObj_on_free_list_TEST i"
proof -
  from ok have "0 \<le> allocated_positionals s" by (simp add: sig_ok_def)
  then consider (enough) "n \<le> allocated_positionals s"
    | (first) "allocated_positionals s < n" "allocated_positionals s = 0"
    | (grow) "allocated_positionals s < n" "0 < allocated_positionals s"
    by linarith
  then show ?thesis
  proof cases
    case enough
    then show ?thesis using ok by (simp add: ensure_enough)
  next
    case first
    with ok have z: "positionals s = NULL" "num_positionals s = 0"
      by (auto simp: sig_ok_def)
    show ?thesis
      using first z
      by (auto simp: ensure_positionals_storage_def Let_def
          Parrot_gc_allocate_memory_chunk_def Parrot_gc_allocate_fixed_size_storage_def
          sig_ok_def live_cells_def split: option.splits)
  next
    case grow
    then show ?thesis using ensure_grow[OF ok] by blast
  qed
qed

lemma push_cell_ok:
  assumes ok: "sig_ok i s"
  shows "\<exists>i' s'. push_cell i s c = Inr (i', s') \<and> sig_ok i' s' \<and>
           num_positionals s' = num_positionals s + 1 \<and>
           live_cells i' s' = live_cells i s @ [c] \<and>
           PObj_on_free_list_TEST i' = PObj_on_free_list_TEST i"
proof -
  from ensure_ok[OF ok, of "num_positionals s + 1"] obtain i1 s1 where
    e: "ensure_positionals_storage i s (num_positionals s + 1) = Inr (i1, s1)"
    and ok1: "sig_ok i1 s1" and al: "num_positionals s + 1 \<le> allocated_positionals s1"
    and n1: "num_positionals s1 = num_positionals s"
    and lc: "live_cells i1 s1 = live_cells i s"
    and fl: "PObj_on_free_list_TEST i1 = PObj_on_free_list_TEST i"
    by blast
  from ok1 al n1 obtain cs where
    cs: "arrays i1 (positionals s1) = Some cs" "int (length cs) = allocated_positionals s1"
    and nn: "0 \<le> num_positionals s"
    by (auto simp: sig_ok_def split: option.splits if_splits)
  have lt: "nat (num_positionals s) < length cs" using cs al nn by linarith
  have tk: "take (nat (num_positionals s + 1)) (cs[nat (num_positionals s) := c])
              = take (nat (num_positionals s)) cs @ [c]"
  proof -
    have "nat (num_positionals s + 1) = Suc (nat (num_positionals s))" using nn by simp
    then show ?thesis using lt by (simp add: take_Suc_conv_app_nth)
  qed
  define i2 where "i2 = i1\<lparr>arrays := (arrays i1)(positionals s1 \<mapsto> cs[nat (num_positionals s) := c])\<rparr>"
  define s2 where "s2 = s1\<lparr>num_positionals := num_positionals s1 + 1\<rparr>"
  have st: "store_cell i1 (positionals s1) (num_positionals s) c = Inr i2"
    using cs nn lt by (simp add: store_cell_def i2_def)
  have res: "push_cell i s c = Inr (i2, s2)"
    using e st by (simp add: push_cell_def s2_def)
  have ok2: "sig_ok i2 s2"
    using ok1 cs al n1 nn by (auto simp: sig_ok_def i2_def s2_def)
  have lc2: "live_cells i2 s2 = live_cells i s @ [c]"
    using lc cs tk n1 by (simp add: live_cells_def i2_def s2_def)
  have "num_positionals s2 = num_positionals s + 1" using n1 by (simp add: s2_def)
  moreover have "PObj_on_free_list_TEST i2 = PObj_on_free_list_TEST i"
    using fl by (simp add: i2_def)
  ultimately show ?thesis using res ok2 lc2 by blast
qed

lemma do_pushes_ok:
  assumes "sig_ok i s" "\<forall>p\<in>set ps. push_alive i p"
  shows "\<exists>i' s'. do_pushes i s ps = Inr (i', s') \<and> sig_ok i' s' \<and>
           num_positionals s' = num_positionals s + int (length ps) \<and>
           live_cells i' s' = live_cells i s @ map cell_of ps \<and>
           PObj_on_free_list_TEST i' = PObj_on_free_list_TEST i"
  using assms
proof (induction ps arbitrary: i s)
  case Nil
  then show ?case by simp
next
  case (Cons p ps)
  from Cons.prems have al: "push_alive i p" by simp
  from push_cell_ok[OF Cons.prems(1), of "cell_of p"] obtain i1 s1 where
    p: "push_cell i s (cell_of p) = Inr (i1, s1)" and ok1: "sig_ok i1 s1"
    and n1: "num_positionals s1 = num_positionals s + 1"
    and lc: "live_cells i1 s1 = live_cells i s @ [cell_of p]"
    and fl: "PObj_on_free_list_TEST i1 = PObj_on_free_list_TEST i"
    by blast
  have al1: "\<forall>q\<in>set ps. push_alive i1 q"
  proof
    fix q assume "q \<in> set ps"
    with Cons.prems(2) have "push_alive i q" by simp
    then show "push_alive i1 q" using fl by (cases q) simp_all
  qed
  from Cons.IH[OF ok1 al1] obtain i' s' where
    r: "do_pushes i1 s1 ps = Inr (i', s')" "sig_ok i' s'"
       "num_positionals s' = num_positionals s1 + int (length ps)"
       "live_cells i' s' = live_cells i1 s1 @ map cell_of ps"
       "PObj_on_free_list_TEST i' = PObj_on_free_list_TEST i1"
    by blast
  show ?case
    using r p n1 lc fl al by (simp add: do_push_cell)
qed

lemma reads_back_cell:
  assumes "sig_ok i s" "0 \<le> k" "k < num_positionals s" "live_cells i s ! nat k = cell_of p"
  shows "reads_back i s k p"
proof -
  from assms(1-3) obtain cs where
    cs: "arrays i (positionals s) = Some cs" "int (length cs) = allocated_positionals s"
    and le: "num_positionals s \<le> allocated_positionals s"
    by (auto simp: sig_ok_def split: option.splits if_splits)
  have "nat k < nat (num_positionals s)" using assms(2,3) by simp
  then have "cs ! nat k = cell_of p" using assms(4) cs by (simp add: live_cells_def)
  moreover have "nat k < length cs" using assms(2,3) cs le by linarith
  ultimately have "load_cell i (positionals s) k = Inr (cell_of p)"
    using cs assms(2) by (simp add: load_cell_def)
  then show ?thesis using assms(2,3)
    by (cases p) (simp_all add: Parrot_pcc_signature_get_integer_def
        Parrot_pcc_signature_get_number_def Parrot_pcc_signature_get_string_def
        Parrot_pcc_signature_get_pmc_def)
qed

lemma fresh_ok: "fresh s \<Longrightarrow> sig_ok i s"
  by (simp add: fresh_def sig_ok_def)

lemma fresh_live: "fresh s \<Longrightarrow> live_cells i s = []"
  by (simp add: fresh_def live_cells_def split: option.splits)

text \<open>
  C1. For every sequence of N positional pushes of any mix of kinds onto a fresh
  Signature (an object push going through when the object is not on the free list),
  the sequence runs to the end, \<open>num_positionals\<close> returns N, and for each index below
  N the getter of the kind that was pushed returns the value pushed at that index.
\<close>

theorem pushes_then_reads:
  assumes "fresh s" and "\<forall>p\<in>set ps. push_alive i p"
  shows "\<exists>i' s'. do_pushes i s ps = Inr (i', s') \<and>
           Parrot_pcc_signature_num_positionals i' s' = int (length ps) \<and>
           (\<forall>k<length ps. reads_back i' s' (int k) (ps ! k))"
proof -
  from do_pushes_ok[OF fresh_ok[OF assms(1)] assms(2)] obtain i' s' where
    r: "do_pushes i s ps = Inr (i', s')" "sig_ok i' s'"
       "num_positionals s' = num_positionals s + int (length ps)"
       "live_cells i' s' = live_cells i s @ map cell_of ps"
    by blast
  have n: "num_positionals s' = int (length ps)" using r(3) assms(1) by (simp add: fresh_def)
  have lc: "live_cells i' s' = map cell_of ps" using r(4) fresh_live[OF assms(1)] by simp
  have "reads_back i' s' (int k) (ps ! k)" if "k < length ps" for k
    by (rule reads_back_cell[OF r(2)]) (use that n lc in simp_all)
  then show ?thesis using r(1) n by (auto simp: Parrot_pcc_signature_num_positionals_def)
qed

theorem pushes_then_reads_witness:
  "fresh sig0 \<and>
   list_all (push_alive interp0) [PushInteger 7, PushString 101, PushPMC 500, PushFloat 2.5] \<and>
   (\<exists>i' s'. do_pushes interp0 sig0 [PushInteger 7, PushString 101, PushPMC 500, PushFloat 2.5] = Inr (i', s') \<and>
      Parrot_pcc_signature_num_positionals i' s' = 4 \<and>
      reads_back i' s' 0 (PushInteger 7) \<and> reads_back i' s' 3 (PushFloat 2.5))"
proof -
  have f: "fresh sig0" by (simp add: fresh_def sig0_def)
  have a: "\<forall>p\<in>set [PushInteger 7, PushString 101, PushPMC 500, PushFloat 2.5]. push_alive interp0 p"
    by (simp add: interp0_def)
  from pushes_then_reads[OF f a] obtain i' s' where
    r: "do_pushes interp0 sig0 [PushInteger 7, PushString 101, PushPMC 500, PushFloat 2.5] = Inr (i', s')"
       "Parrot_pcc_signature_num_positionals i' s' = int (length [PushInteger 7, PushString 101, PushPMC 500, PushFloat 2.5])"
       "\<forall>k<length [PushInteger 7, PushString 101, PushPMC 500, PushFloat 2.5].
          reads_back i' s' (int k) ([PushInteger 7, PushString 101, PushPMC 500, PushFloat 2.5] ! k)"
    by blast
  have "reads_back i' s' 0 (PushInteger 7)"
    using r(3)[rule_format, of 0] by simp
  moreover have "reads_back i' s' 3 (PushFloat 2.5)"
    using r(3)[rule_format, of 3] by simp
  ultimately show ?thesis using f a r(1,2) by (simp del: reads_back.simps do_pushes.simps)
qed

subsection \<open>Autoboxing\<close>







lemma cast_INTVAL_MAX: "FLOATVAL_of_INTVAL INTVAL_MAX = 2 ^ 63"
  by (simp add: FLOATVAL_of_INTVAL_def double_ulp_exp_def Let_def INTVAL_MAX_def)











subsection \<open>Named reads before any named write\<close>

text \<open>
  With the table pointer null, every named read returns the zero value of its type and
  touches no store.
\<close>

lemma named_queries_without_table:
  assumes "hash s = NULL"
  shows "Parrot_pcc_signature_get_integer_named i s k = Inr 0"
    "Parrot_pcc_signature_get_number_named i s k = Inr 0"
    "Parrot_pcc_signature_get_string_named i s k = Inr STRINGNULL"
    "Parrot_pcc_signature_get_pmc_named i s k = Inr PMCNULL"
    "Parrot_pcc_signature_exists_named i s k = Inr 0"
  using assms
  by (simp_all add: Parrot_pcc_signature_get_integer_named_def
      Parrot_pcc_signature_get_number_named_def Parrot_pcc_signature_get_string_named_def
      Parrot_pcc_signature_get_pmc_named_def Parrot_pcc_signature_exists_named_def)

lemma new_interp0:
  "Parrot_pcc_signature_new interp0 =
     (\<lparr>positionals = 72340172838076673, num_positionals = 72340172838076673,
       allocated_positionals = 72340172838076673, hash = 72340172838076673,
       type_tuple = 72340172838076673, short_sig = 72340172838076673,
       arg_flags = 72340172838076673, return_flags = 72340172838076673\<rparr>,
      interp0\<lparr>brk := 8193, alloc_log := [AllocFixed 64 8193]\<rparr>)"
  by (simp add: Parrot_pcc_signature_new_def Parrot_gc_allocate_fixed_size_storage_def
      interp0_def sizeof_Parrot_Signature_def sizeof_pointer_def sizeof_INTVAL_def)

text \<open>
  C3. On a Signature on which no named write has occurred the named store is to be
  absent, and every named read is to return the zero value without instantiating the
  table. Evaluated on the Signature that \<open>Parrot_pcc_signature_new\<close> returns, before any
  write: the table pointer is not null but \<open>0x0101010101010101\<close>, so every named read
  follows it into memory that holds no table.
\<close>

theorem named_queries_on_new_signature:
  "hash (fst (Parrot_pcc_signature_new interp0)) = 72340172838076673 \<and>
   Parrot_pcc_signature_get_integer_named (snd (Parrot_pcc_signature_new interp0))
     (fst (Parrot_pcc_signature_new interp0)) 103 = Inl BadPointer \<and>
   Parrot_pcc_signature_get_number_named (snd (Parrot_pcc_signature_new interp0))
     (fst (Parrot_pcc_signature_new interp0)) 103 = Inl BadPointer \<and>
   Parrot_pcc_signature_get_string_named (snd (Parrot_pcc_signature_new interp0))
     (fst (Parrot_pcc_signature_new interp0)) 103 = Inl BadPointer \<and>
   Parrot_pcc_signature_get_pmc_named (snd (Parrot_pcc_signature_new interp0))
     (fst (Parrot_pcc_signature_new interp0)) 103 = Inl BadPointer \<and>
   Parrot_pcc_signature_exists_named (snd (Parrot_pcc_signature_new interp0))
     (fst (Parrot_pcc_signature_new interp0)) 103 = Inl BadPointer"
  unfolding new_interp0
  by (simp add: Parrot_pcc_signature_get_integer_named_def
      Parrot_pcc_signature_get_number_named_def Parrot_pcc_signature_get_string_named_def
      Parrot_pcc_signature_get_pmc_named_def Parrot_pcc_signature_exists_named_def
      Parrot_hash_get_def Parrot_hash_exists_def Parrot_hash_key_from_string_def interp0_def)

subsection \<open>Pushing an object\<close>

lemma sig_ok_1: "sig_ok interp1 sig1"
  by (simp add: sig_ok_def interp1_def sig1_def)

lemma load_live:
  assumes "sig_ok i s" "0 \<le> k" "k < num_positionals s"
  shows "load_cell i (positionals s) k = Inr (live_cells i s ! nat k)"
proof -
  from assms obtain cs where
    cs: "arrays i (positionals s) = Some cs" "int (length cs) = allocated_positionals s"
    and le: "num_positionals s \<le> allocated_positionals s"
    by (auto simp: sig_ok_def split: option.splits if_splits)
  have "nat k < nat (num_positionals s)" using assms(2,3) by simp
  moreover have "nat k < length cs" using assms(2,3) cs le by linarith
  ultimately show ?thesis using cs assms(2) by (simp add: load_cell_def live_cells_def)
qed

text \<open>
  C9. Pushing an object reference that is on the free list fails with the assertion and
  stores nothing; pushing one that is not on the free list succeeds on every Signature
  whose positional store is well formed, appends the reference as the last cell, and
  \<open>get_pmc\<close> at that index returns it.
\<close>

theorem push_pmc_dead_or_alive:
  "(PObj_on_free_list_TEST i v \<longrightarrow> Parrot_pcc_signature_push_pmc i s v = Inl AssertFailed) \<and>
   (sig_ok i s \<and> \<not> PObj_on_free_list_TEST i v \<longrightarrow>
      (\<exists>i' s'. Parrot_pcc_signature_push_pmc i s v = Inr (i', s') \<and>
         num_positionals s' = num_positionals s + 1 \<and>
         live_cells i' s' = live_cells i s @ [PMCCELL v] \<and>
         Parrot_pcc_signature_get_pmc i' s' (num_positionals s) = Inr v))"
proof (intro conjI impI)
  assume "PObj_on_free_list_TEST i v"
  then show "Parrot_pcc_signature_push_pmc i s v = Inl AssertFailed"
    by (simp add: Parrot_pcc_signature_push_pmc_def)
next
  assume a: "sig_ok i s \<and> \<not> PObj_on_free_list_TEST i v"
  from push_cell_ok[of i s "PMCCELL v"] a obtain i' s' where
    r: "push_cell i s (PMCCELL v) = Inr (i', s')" "sig_ok i' s'"
       "num_positionals s' = num_positionals s + 1"
       "live_cells i' s' = live_cells i s @ [PMCCELL v]"
    by blast
  from a have n0: "0 \<le> num_positionals s" by (simp add: sig_ok_def)
  have len: "length (live_cells i s) = nat (num_positionals s)"
    using a by (auto simp: sig_ok_def live_cells_def split: option.splits if_splits)
  have "load_cell i' (positionals s') (num_positionals s) = Inr (live_cells i' s' ! nat (num_positionals s))"
    using load_live[OF r(2) n0] r(3) by simp
  then have "load_cell i' (positionals s') (num_positionals s) = Inr (PMCCELL v)"
    using r(4) len by (metis nth_append_length)
  then have "Parrot_pcc_signature_get_pmc i' s' (num_positionals s) = Inr v"
    using r(3) n0 by (simp add: Parrot_pcc_signature_get_pmc_def)
  then show "\<exists>i' s'. Parrot_pcc_signature_push_pmc i s v = Inr (i', s') \<and>
         num_positionals s' = num_positionals s + 1 \<and>
         live_cells i' s' = live_cells i s @ [PMCCELL v] \<and>
         Parrot_pcc_signature_get_pmc i' s' (num_positionals s) = Inr v"
    using r a by (auto simp: push_pmc_cell)
qed

theorem push_pmc_dead_or_alive_witness:
  "PObj_on_free_list_TEST interp1 666 \<and>
   Parrot_pcc_signature_push_pmc interp1 sig1 666 = Inl AssertFailed \<and>
   sig_ok interp1 sig1 \<and> \<not> PObj_on_free_list_TEST interp1 500 \<and>
   (\<exists>i' s'. Parrot_pcc_signature_push_pmc interp1 sig1 500 = Inr (i', s') \<and>
      num_positionals s' = 6 \<and>
      Parrot_pcc_signature_get_pmc i' s' 5 = Inr 500)"
proof -
  have d: "PObj_on_free_list_TEST interp1 666" by (simp add: interp1_def interp0_def)
  have "\<not> PObj_on_free_list_TEST interp1 500" by (simp add: interp1_def interp0_def)
  then have l: "sig_ok interp1 sig1 \<and> \<not> PObj_on_free_list_TEST interp1 500"
    using sig_ok_1 by blast
  have n: "num_positionals sig1 = 5" by (simp add: sig1_def)
  from push_pmc_dead_or_alive[of interp1 666 sig1] d
  have 1: "Parrot_pcc_signature_push_pmc interp1 sig1 666 = Inl AssertFailed" by blast
  from push_pmc_dead_or_alive[of interp1 500 sig1] l
  have 2: "\<exists>i' s'. Parrot_pcc_signature_push_pmc interp1 sig1 500 = Inr (i', s') \<and>
         num_positionals s' = num_positionals sig1 + 1 \<and>
         live_cells i' s' = live_cells interp1 sig1 @ [PMCCELL 500] \<and>
         Parrot_pcc_signature_get_pmc i' s' (num_positionals sig1) = Inr 500" by blast
  then have "\<exists>i' s'. Parrot_pcc_signature_push_pmc interp1 sig1 500 = Inr (i', s') \<and>
      num_positionals s' = 6 \<and> Parrot_pcc_signature_get_pmc i' s' 5 = Inr 500"
    unfolding n by auto
  then show ?thesis using d l 1 by blast
qed

subsection \<open>Growth of the positional array\<close>

lemma push_cell_no_growth:
  assumes ok: "sig_ok i s" and lt: "num_positionals s < allocated_positionals s"
  shows "\<exists>i'. push_cell i s c = Inr (i', s\<lparr>num_positionals := num_positionals s + 1\<rparr>) \<and>
           alloc_log i' = alloc_log i \<and> brk i' = brk i"
proof -
  from ok lt obtain cs where
    cs: "arrays i (positionals s) = Some cs" "int (length cs) = allocated_positionals s"
    and nn: "0 \<le> num_positionals s"
    by (auto simp: sig_ok_def split: option.splits if_splits)
  have "nat (num_positionals s) < length cs" using cs lt nn by linarith
  then show ?thesis
    using lt cs nn by (simp add: push_cell_def ensure_enough store_cell_def Let_def)
qed

lemma push_cell_first:
  assumes "fresh s"
  shows "\<exists>i'. push_cell i s c =
             Inr (i', s\<lparr>allocated_positionals := 8, positionals := Suc (brk i),
                        num_positionals := 1\<rparr>) \<and>
           alloc_log i' = alloc_log i @ [AllocFixed (8 * sizeof_Pcc_cell) (Suc (brk i))] \<and>
           brk i' = Suc (brk i)"
proof -
  have z: "positionals s = NULL" "allocated_positionals s < 1" "num_positionals s = 0"
    using assms by (simp_all add: fresh_def)
  have e: "ensure_positionals_storage i s 1 =
     Inr (i\<lparr>brk := Suc (brk i),
            alloc_log := alloc_log i @ [AllocFixed (8 * sizeof_Pcc_cell) (Suc (brk i))],
            arrays := (arrays i)(Suc (brk i) \<mapsto> replicate 8 NOCELL)\<rparr>,
          s\<lparr>allocated_positionals := 8, positionals := Suc (brk i)\<rparr>)"
    using ensure_first[OF z(1,2)] by simp
  show ?thesis
    by (simp add: push_cell_def z(3) e store_cell_def Let_def)
qed

lemma push_cell_ninth:
  assumes ok: "sig_ok i s" and n: "num_positionals s = 8" and a: "allocated_positionals s = 8"
  shows "\<exists>i' s'. push_cell i s c = Inr (i', s') \<and>
           alloc_log i' = alloc_log i @ [AllocChunk (9 * sizeof_Pcc_cell) (positionals s'),
                                         FreeFixed (8 * sizeof_Pcc_cell) (positionals s)] \<and>
           allocated_positionals s' = 9 \<and> positionals s' \<noteq> positionals s \<and>
           arrays i' (positionals s) = None"
proof -
  from ok a obtain cs where
    cs: "arrays i (positionals s) = Some cs" "length cs = 8"
    and nn: "positionals s \<noteq> NULL" "positionals s \<le> brk i"
    by (auto simp: sig_ok_def split: option.splits if_splits)
  have ne: "Suc (brk i) \<noteq> positionals s" using nn by simp
  show ?thesis
    using cs nn ne n a
    by (simp add: push_cell_def ensure_positionals_storage_def Let_def
        Parrot_gc_allocate_memory_chunk_def memcpy_cells_def
        Parrot_gc_free_fixed_size_storage_def store_cell_def)
qed

lemma do_pushes_within_capacity:
  assumes "sig_ok i s" "\<forall>p\<in>set ps. push_alive i p"
    "num_positionals s + int (length ps) \<le> allocated_positionals s"
  shows "\<exists>i' s'. do_pushes i s ps = Inr (i', s') \<and> alloc_log i' = alloc_log i \<and>
           allocated_positionals s' = allocated_positionals s \<and>
           positionals s' = positionals s"
  using assms
proof (induction ps arbitrary: i s)
  case Nil
  then show ?case by simp
next
  case (Cons p ps)
  from Cons.prems have lt: "num_positionals s < allocated_positionals s"
    and al: "push_alive i p" by simp_all
  from push_cell_no_growth[OF Cons.prems(1) lt, of "cell_of p"] obtain i1 where
    p: "push_cell i s (cell_of p) = Inr (i1, s\<lparr>num_positionals := num_positionals s + 1\<rparr>)"
    and lg: "alloc_log i1 = alloc_log i" by blast
  from push_cell_ok[OF Cons.prems(1), of "cell_of p"] p have
    ok1: "sig_ok i1 (s\<lparr>num_positionals := num_positionals s + 1\<rparr>)"
    and fl: "PObj_on_free_list_TEST i1 = PObj_on_free_list_TEST i" by auto
  have al1: "\<forall>q\<in>set ps. push_alive i1 q"
  proof
    fix q assume "q \<in> set ps"
    with Cons.prems(2) have "push_alive i q" by simp
    then show "push_alive i1 q" using fl by (cases q) simp_all
  qed
  have cap: "num_positionals (s\<lparr>num_positionals := num_positionals s + 1\<rparr>) + int (length ps)
               \<le> allocated_positionals (s\<lparr>num_positionals := num_positionals s + 1\<rparr>)"
    using Cons.prems(3) by simp
  from Cons.IH[OF ok1 al1 cap] show ?case
    using p lg al by (auto simp: do_push_cell)
qed

lemma do_pushes_fresh_up_to_8:
  assumes f: "fresh s" and al: "\<forall>p\<in>set ps. push_alive i p" and ne: "ps \<noteq> []"
    and le: "length ps \<le> 8"
  shows "\<exists>i' s'. do_pushes i s ps = Inr (i', s') \<and>
           alloc_log i' = alloc_log i @ [AllocFixed (8 * sizeof_Pcc_cell) (positionals s')] \<and>
           allocated_positionals s' = 8 \<and> positionals s' \<noteq> NULL"
proof -
  from ne obtain p qs where ps: "ps = p # qs" by (cases ps) auto
  define s1 where "s1 = s\<lparr>allocated_positionals := 8, positionals := Suc (brk i),
                        num_positionals := 1\<rparr>"
  from push_cell_first[OF f, of i "cell_of p"] obtain i1 where
    p: "push_cell i s (cell_of p) = Inr (i1, s1)"
    and lg: "alloc_log i1 = alloc_log i @ [AllocFixed (8 * sizeof_Pcc_cell) (Suc (brk i))]"
    by (auto simp: s1_def)
  from push_cell_ok[OF fresh_ok[OF f], of i "cell_of p"] p have
    ok1: "sig_ok i1 s1" and fl: "PObj_on_free_list_TEST i1 = PObj_on_free_list_TEST i" by auto
  have al1: "\<forall>q\<in>set qs. push_alive i1 q"
  proof
    fix q assume "q \<in> set qs"
    with al ps have "push_alive i q" by simp
    then show "push_alive i1 q" using fl by (cases q) simp_all
  qed
  have cap: "num_positionals s1 + int (length qs) \<le> allocated_positionals s1"
    using le ps by (simp add: s1_def)
  from do_pushes_within_capacity[OF ok1 al1 cap] obtain i' s' where
    r: "do_pushes i1 s1 qs = Inr (i', s')" "alloc_log i' = alloc_log i1"
       "allocated_positionals s' = allocated_positionals s1" "positionals s' = positionals s1"
    by blast
  have "push_alive i p" using al ps by simp
  then have "do_pushes i s ps = Inr (i', s')" using p r(1) ps by (simp add: do_push_cell)
  moreover have "alloc_log i' = alloc_log i @ [AllocFixed (8 * sizeof_Pcc_cell) (positionals s')]"
    using r(2,4) lg by (simp add: s1_def)
  moreover have "allocated_positionals s' = 8 \<and> positionals s' \<noteq> NULL"
    using r(3,4) by (simp add: s1_def)
  ultimately show ?thesis by blast
qed

text \<open>
  C8. Pushing positionals one at a time onto a fresh Signature: the first growth takes
  8 slots from the fixed-size pool, and up to 8 pushes leave exactly that one
  allocation in the log, so no chunk is allocated. The 9th push makes exactly one
  reallocation: a chunk of 9 slots is allocated, the 8 live cells are copied into it,
  the 9th cell is written after them, and the pooled block of 8 slots is released.
\<close>

theorem growth_boundary:
  assumes "fresh s" and "\<forall>p\<in>set ps. push_alive i p" and "push_alive i q"
  shows "(ps \<noteq> [] \<and> length ps \<le> 8 \<longrightarrow>
            (\<exists>i' s'. do_pushes i s ps = Inr (i', s') \<and>
               alloc_log i' = alloc_log i @ [AllocFixed (8 * sizeof_Pcc_cell) (positionals s')] \<and>
               allocated_positionals s' = 8 \<and> positionals s' \<noteq> NULL)) \<and>
         (length ps = 8 \<longrightarrow>
            (\<exists>i' s' i'' s''. do_pushes i s ps = Inr (i', s') \<and> do_push i' s' q = Inr (i'', s'') \<and>
               alloc_log i'' = alloc_log i' @
                 [AllocChunk (9 * sizeof_Pcc_cell) (positionals s''),
                  FreeFixed (8 * sizeof_Pcc_cell) (positionals s')] \<and>
               positionals s'' \<noteq> positionals s' \<and>
               arrays i'' (positionals s') = None \<and>
               live_cells i' s' = map cell_of ps \<and>
               live_cells i'' s'' = map cell_of ps @ [cell_of q]))"
proof (intro conjI impI)
  assume "ps \<noteq> [] \<and> length ps \<le> 8"
  then show "\<exists>i' s'. do_pushes i s ps = Inr (i', s') \<and>
               alloc_log i' = alloc_log i @ [AllocFixed (8 * sizeof_Pcc_cell) (positionals s')] \<and>
               allocated_positionals s' = 8 \<and> positionals s' \<noteq> NULL"
    using do_pushes_fresh_up_to_8[OF assms(1,2)] by blast
next
  assume l8: "length ps = 8"
  then have ne: "ps \<noteq> []" by auto
  from do_pushes_fresh_up_to_8[OF assms(1,2) ne] l8 obtain i' s' where
    r: "do_pushes i s ps = Inr (i', s')" "allocated_positionals s' = 8" by auto
  from do_pushes_ok[OF fresh_ok[OF assms(1)] assms(2)] r(1) have
    ok: "sig_ok i' s'" and n: "num_positionals s' = num_positionals s + int (length ps)"
    and lc: "live_cells i' s' = live_cells i s @ map cell_of ps"
    and fl: "PObj_on_free_list_TEST i' = PObj_on_free_list_TEST i" by auto
  have n8: "num_positionals s' = 8" using n l8 assms(1) by (simp add: fresh_def)
  have lc': "live_cells i' s' = map cell_of ps" using lc fresh_live[OF assms(1)] by simp
  have alq: "push_alive i' q" using assms(3) fl by (cases q) simp_all
  from push_cell_ninth[OF ok n8 r(2), of "cell_of q"] obtain i'' s'' where
    q: "push_cell i' s' (cell_of q) = Inr (i'', s'')"
       "alloc_log i'' = alloc_log i' @ [AllocChunk (9 * sizeof_Pcc_cell) (positionals s''),
                                         FreeFixed (8 * sizeof_Pcc_cell) (positionals s')]"
       "positionals s'' \<noteq> positionals s'" "arrays i'' (positionals s') = None"
    by blast
  from push_cell_ok[OF ok, of "cell_of q"] q(1) have
    "live_cells i'' s'' = live_cells i' s' @ [cell_of q]" by auto
  then show "\<exists>i' s' i'' s''. do_pushes i s ps = Inr (i', s') \<and> do_push i' s' q = Inr (i'', s'') \<and>
               alloc_log i'' = alloc_log i' @
                 [AllocChunk (9 * sizeof_Pcc_cell) (positionals s''),
                  FreeFixed (8 * sizeof_Pcc_cell) (positionals s')] \<and>
               positionals s'' \<noteq> positionals s' \<and>
               arrays i'' (positionals s') = None \<and>
               live_cells i' s' = map cell_of ps \<and>
               live_cells i'' s'' = map cell_of ps @ [cell_of q]"
    using r(1) q lc' alq by (auto simp: do_push_cell)
qed

theorem growth_boundary_witness:
  "fresh sig0 \<and> list_all (push_alive interp0) eight_pushes \<and> push_alive interp0 (PushInteger 9) \<and>
   eight_pushes \<noteq> [] \<and> length eight_pushes = 8 \<and>
   (\<exists>i' s' i'' s''. do_pushes interp0 sig0 eight_pushes = Inr (i', s') \<and>
      alloc_log i' = [AllocFixed (8 * sizeof_Pcc_cell) (positionals s')] \<and>
      allocated_positionals s' = 8 \<and>
      do_push i' s' (PushInteger 9) = Inr (i'', s'') \<and>
      alloc_log i'' =
        [AllocFixed (8 * sizeof_Pcc_cell) (positionals s'),
         AllocChunk (9 * sizeof_Pcc_cell) (positionals s''),
         FreeFixed (8 * sizeof_Pcc_cell) (positionals s')] \<and>
      live_cells i'' s'' = map cell_of eight_pushes @ [INTCELL 9])"
proof -
  have f: "fresh sig0" by (simp add: fresh_def sig0_def)
  have a: "\<forall>p\<in>set eight_pushes. push_alive interp0 p"
    by (simp add: eight_pushes_def interp0_def)
  have q: "push_alive interp0 (PushInteger 9)" by simp
  have l: "eight_pushes \<noteq> [] \<and> length eight_pushes \<le> 8" "length eight_pushes = 8"
    by (simp_all add: eight_pushes_def)
  have e: "alloc_log interp0 = []" by (simp add: interp0_def)
  from growth_boundary[OF f a q] l obtain i1 s1 i' s' i'' s'' where
    r1: "do_pushes interp0 sig0 eight_pushes = Inr (i1, s1)"
        "alloc_log i1 = alloc_log interp0 @ [AllocFixed (8 * sizeof_Pcc_cell) (positionals s1)]"
        "allocated_positionals s1 = 8"
    and r2: "do_pushes interp0 sig0 eight_pushes = Inr (i', s')"
        "do_push i' s' (PushInteger 9) = Inr (i'', s'')"
        "alloc_log i'' = alloc_log i' @
           [AllocChunk (9 * sizeof_Pcc_cell) (positionals s''),
            FreeFixed (8 * sizeof_Pcc_cell) (positionals s')]"
        "live_cells i'' s'' = map cell_of eight_pushes @ [cell_of (PushInteger 9)]"
    by blast
  from r1(1) r2(1) have same: "i1 = i'" "s1 = s'" by simp_all
  have "\<exists>i' s' i'' s''. do_pushes interp0 sig0 eight_pushes = Inr (i', s') \<and>
      alloc_log i' = [AllocFixed (8 * sizeof_Pcc_cell) (positionals s')] \<and>
      allocated_positionals s' = 8 \<and>
      do_push i' s' (PushInteger 9) = Inr (i'', s'') \<and>
      alloc_log i'' =
        [AllocFixed (8 * sizeof_Pcc_cell) (positionals s'),
         AllocChunk (9 * sizeof_Pcc_cell) (positionals s''),
         FreeFixed (8 * sizeof_Pcc_cell) (positionals s')] \<and>
      live_cells i'' s'' = map cell_of eight_pushes @ [INTCELL 9]"
    using r1 r2 same e by (intro exI[of _ i'] exI[of _ s'] exI[of _ i''] exI[of _ s'']) simp
  moreover have "list_all (push_alive interp0) eight_pushes" using a by (simp add: list_all_iff)
  ultimately show ?thesis using f q l by blast
qed

subsection \<open>Named pushes\<close>

lemma do_push_named_eq:
  "do_push_named i s key p =
     (case get_cell_named i s key of
        Inl e \<Rightarrow> Inl e
      | Inr (cell, i1) \<Rightarrow> write_cell i1 cell (cell_of p))"
  by (cases p) (auto simp: Parrot_pcc_signature_push_integer_named_def
      Parrot_pcc_signature_push_number_named_def Parrot_pcc_signature_push_string_named_def
      Parrot_pcc_signature_push_pmc_named_def split: sum.splits)

lemma bucket_find_mem:
  "bucket_find i bs k = Some c \<Longrightarrow> \<exists>k'. (k', c) \<in> set bs \<and> str_text i k' = str_text i k"
  by (induction bs) (auto split: if_splits)

lemma bucket_find_one_entry:
  "distinct (map (\<lambda>b. str_text i (fst b)) bs) \<Longrightarrow> bucket_find i bs k = Some c \<Longrightarrow>
     \<exists>k'. entries_for i bs k = [(k', c)]"
proof (induction bs)
  case Nil
  then show ?case by simp
next
  case (Cons b bs)
  obtain k' v where b: "b = (k', v)" by (cases b)
  show ?case
  proof (cases "str_text i k' = str_text i k")
    case True
    have "\<forall>x\<in>set bs. str_text i (fst x) \<noteq> str_text i k"
      using Cons.prems(1) True b by (auto simp: image_iff)
    then have "filter (\<lambda>b. str_text i (fst b) = str_text i k) bs = []"
      by (simp add: filter_empty_conv)
    then show ?thesis using True b Cons.prems(2) by (simp add: entries_for_def)
  next
    case False
    then show ?thesis using Cons b by (simp add: entries_for_def)
  qed
qed

lemma reads_cell_named:
  assumes "hash s \<noteq> NULL" "hashes i (hash s) = Some bs" "bucket_find i bs k = Some c"
    "c \<noteq> NULL" "cells i c = Some (cell_of p)"
  shows "reads_back_named i s k p"
  using assms
  by (cases p) (simp_all add: Parrot_pcc_signature_get_integer_named_def
      Parrot_pcc_signature_get_number_named_def Parrot_pcc_signature_get_string_named_def
      Parrot_pcc_signature_get_pmc_named_def Parrot_hash_get_def
      Parrot_hash_key_from_string_def)

lemma overwrite_present_key:
  assumes ok: "named_ok i s" and pre: "Parrot_pcc_signature_exists_named i s k = Inr 1"
  shows "\<exists>i' bs k' c. do_push_named i s k p = Inr i' \<and>
           hashes i (hash s) = Some bs \<and> entries_for i bs k = [(k', c)] \<and>
           hashes i' = hashes i \<and> entries_for i' bs k = [(k', c)] \<and>
           cells i' = (cells i)(c \<mapsto> cell_of p) \<and>
           Parrot_pcc_signature_exists_named i' s k = Inr 1 \<and>
           reads_back_named i' s k p \<and> named_ok i' s"
proof -
  from ok obtain bs where
    bs: "hashes i (hash s) = Some bs" and hn: "hash s \<noteq> NULL" and tok: "table_ok i bs"
    by (auto simp: named_ok_def split: option.splits)
  from pre bs hn obtain c where c: "bucket_find i bs k = Some c"
    by (auto simp: Parrot_pcc_signature_exists_named_def Parrot_hash_exists_def
        Parrot_hash_key_from_string_def split: option.splits)
  from bucket_find_mem[OF c] obtain k0 where k0: "(k0, c) \<in> set bs" by blast
  with tok have cn: "c \<noteq> NULL" and cm: "cells i c \<noteq> None"
    by (auto simp: table_ok_def list_all_iff)
  from tok have "distinct (map (\<lambda>b. str_text i (fst b)) bs)" by (simp add: table_ok_def)
  from bucket_find_one_entry[OF this c] obtain k' where one: "entries_for i bs k = [(k', c)]"
    by blast
  define i' where "i' = i\<lparr>cells := (cells i)(c \<mapsto> cell_of p)\<rparr>"
  have g: "get_cell_named i s k = Inr (c, i)"
    using bs c cn by (simp add: get_cell_named_def Parrot_hash_get_def)
  have w: "do_push_named i s k p = Inr i'"
    using g cm by (auto simp: do_push_named_eq write_cell_def i'_def)
  have st: "str_text i' = str_text i" "hashes i' = hashes i" by (simp_all add: i'_def)
  have bf: "bucket_find i' bs k = Some c"
    using c st(1) by (induction bs) (auto)
  have ex: "Parrot_pcc_signature_exists_named i' s k = Inr 1"
    using bs hn bf st(2)
    by (simp add: Parrot_pcc_signature_exists_named_def Parrot_hash_exists_def
        Parrot_hash_key_from_string_def)
  have rb: "reads_back_named i' s k p"
    by (rule reads_cell_named[OF hn _ bf cn]) (simp_all add: st bs i'_def)
  have "entries_for i' bs k = [(k', c)]" using one st(1) by (simp add: entries_for_def)
  moreover have "cells i' = (cells i)(c \<mapsto> cell_of p)" by (simp add: i'_def)
  moreover have "named_ok i' s"
    using bs hn tok cm by (auto simp: named_ok_def table_ok_def i'_def list_all_iff)
  ultimately show ?thesis using w bs one st(2) ex rb by blast
qed

lemma bucket_find_None:
  "bucket_find i bs k = None \<Longrightarrow> \<forall>b\<in>set bs. str_text i (fst b) \<noteq> str_text i k"
proof (induction bs)
  case Nil
  then show ?case by simp
next
  case (Cons b bs)
  obtain k' v where b: "b = (k', v)" by (cases b)
  from Cons.prems b have "str_text i k' \<noteq> str_text i k" "bucket_find i bs k = None"
    by (simp_all split: if_splits)
  with Cons.IH b show ?case by simp
qed

lemma bucket_put_new:
  "bucket_find i bs k = None \<Longrightarrow> bucket_put i bs k c = bs @ [(k, c)]"
  by (induction bs) (auto split: if_splits)

lemma bucket_find_append_new:
  "bucket_find i bs k = None \<Longrightarrow> bucket_find i (bs @ [(k, c)]) k = Some c"
  by (induction bs) (auto split: if_splits)

lemma bucket_find_host:
  "str_text i' = str_text i \<Longrightarrow> bucket_find i' bs k = bucket_find i bs k"
  by (induction bs) auto

lemma insert_absent_key:
  assumes ok: "named_ok i s" and pre: "Parrot_pcc_signature_exists_named i s k = Inr 0"
  shows "\<exists>i' bs. do_push_named i s k p = Inr i' \<and>
           hashes i (hash s) = Some bs \<and> entries_for i bs k = [] \<and>
           hashes i' (hash s) = Some (bs @ [(k, Suc (brk i))]) \<and>
           cells i' = (cells i)(Suc (brk i) \<mapsto> cell_of p) \<and>
           Parrot_pcc_signature_exists_named i' s k = Inr 1 \<and>
           reads_back_named i' s k p \<and> named_ok i' s"
proof -
  from ok obtain bs where
    bs: "hashes i (hash s) = Some bs" and hn: "hash s \<noteq> NULL" and tok: "table_ok i bs"
    by (auto simp: named_ok_def split: option.splits)
  from pre bs hn have c: "bucket_find i bs k = None"
    by (auto simp: Parrot_pcc_signature_exists_named_def Parrot_hash_exists_def
        Parrot_hash_key_from_string_def split: option.splits)
  define a where "a = Suc (brk i)"
  define i1 where "i1 = i\<lparr>brk := a, alloc_log := alloc_log i @ [AllocFixed sizeof_Pcc_cell a],
                           cells := (cells i)(a \<mapsto> NOCELL)\<rparr>"
  define i2 where "i2 = i1\<lparr>hashes := (hashes i1)(hash s \<mapsto> bs @ [(k, a)])\<rparr>"
  define i' where "i' = i2\<lparr>cells := (cells i2)(a \<mapsto> cell_of p)\<rparr>"
  have al: "ALLOC_CELL i = (a, i1)"
    by (simp add: ALLOC_CELL_def Parrot_gc_allocate_fixed_size_storage_def a_def i1_def)
  have "str_text i1 = str_text i" by (simp add: i1_def)
  from bucket_find_host[OF this, of bs k] c have c1: "bucket_find i1 bs k = None" by simp
  have put: "Parrot_hash_put i1 (hash s) k a = Inr i2"
    using bs c1 by (simp add: Parrot_hash_put_def bucket_put_new i2_def i1_def)
  have g: "get_cell_named i s k = Inr (a, i2)"
    using bs c al put by (simp add: get_cell_named_def Parrot_hash_get_def)
  have w: "do_push_named i s k p = Inr i'"
    using g by (simp add: do_push_named_eq write_cell_def i'_def i2_def i1_def)
  have st: "str_text i' = str_text i" by (simp add: i'_def i2_def i1_def)
  have h': "hashes i' (hash s) = Some (bs @ [(k, a)])" by (simp add: i'_def i2_def)
  have bf: "bucket_find i' (bs @ [(k, a)]) k = Some a"
    using bucket_find_host[OF st, of "bs @ [(k, a)]" k] bucket_find_append_new[OF c, of a]
    by simp
  have ex: "Parrot_pcc_signature_exists_named i' s k = Inr 1"
    using hn h' bf
    by (simp add: Parrot_pcc_signature_exists_named_def Parrot_hash_exists_def
        Parrot_hash_key_from_string_def)
  have rb: "reads_back_named i' s k p"
    by (rule reads_cell_named[OF hn h' bf]) (simp_all add: a_def i'_def)
  have e0: "entries_for i bs k = []"
    using bucket_find_None[OF c] by (simp add: entries_for_def filter_empty_conv)
  have cl: "cells i' = (cells i)(a \<mapsto> cell_of p)"
    by (simp add: i'_def i2_def i1_def)
  have d: "distinct (map (\<lambda>b. str_text i (fst b)) bs)"
    and la: "\<forall>b\<in>set bs. snd b \<noteq> NULL \<and> snd b \<le> brk i \<and> cells i (snd b) \<noteq> None"
    using tok by (simp_all add: table_ok_def list_all_iff)
  have d': "distinct (map (\<lambda>b. str_text i' (fst b)) (bs @ [(k, a)]))"
    using d bucket_find_None[OF c] st by (auto simp: image_iff)
  have la': "snd b \<noteq> NULL \<and> snd b \<le> brk i' \<and> cells i' (snd b) \<noteq> None"
    if "b \<in> set (bs @ [(k, a)])" for b
  proof -
    from that consider "b \<in> set bs" | "b = (k, a)" by auto
    then show ?thesis
    proof cases
      case 1
      with la have "snd b \<noteq> NULL" "snd b \<le> brk i" "cells i (snd b) \<noteq> None" by auto
      then show ?thesis by (auto simp: cl a_def i'_def i2_def i1_def)
    next
      case 2
      then show ?thesis by (simp add: cl a_def i'_def i2_def i1_def)
    qed
  qed
  have "table_ok i' (bs @ [(k, a)])"
    unfolding table_ok_def list_all_iff using d' la' by blast
  then have "named_ok i' s" using hn h' by (simp add: named_ok_def)
  then show ?thesis using w bs e0 h' cl ex rb unfolding a_def
    by (intro exI[of _ i'] exI[of _ bs]) simp
qed

lemma exists_named_0_or_1:
  "named_ok i s \<Longrightarrow>
     Parrot_pcc_signature_exists_named i s k = Inr 0 \<or>
     Parrot_pcc_signature_exists_named i s k = Inr 1"
  by (auto simp: named_ok_def Parrot_pcc_signature_exists_named_def Parrot_hash_exists_def
      Parrot_hash_key_from_string_def split: option.splits)

lemma named_push_twice:
  assumes ok: "named_ok i s"
  shows "\<exists>i1 i2 bs k' c. do_push_named i s k p = Inr i1 \<and>
           Parrot_pcc_signature_exists_named i1 s k = Inr 1 \<and>
           do_push_named i1 s k q = Inr i2 \<and>
           hashes i2 (hash s) = Some bs \<and> entries_for i2 bs k = [(k', c)] \<and>
           cells i2 c = Some (cell_of q) \<and>
           Parrot_pcc_signature_exists_named i2 s k = Inr 1 \<and>
           reads_back_named i2 s k q"
proof -
  have "\<exists>i1. do_push_named i s k p = Inr i1 \<and>
           Parrot_pcc_signature_exists_named i1 s k = Inr 1 \<and> named_ok i1 s"
  proof -
    consider (absent) "Parrot_pcc_signature_exists_named i s k = Inr 0"
      | (present) "Parrot_pcc_signature_exists_named i s k = Inr 1"
      using exists_named_0_or_1[OF ok, of k] by blast
    then show ?thesis
    proof cases
      case absent
      from insert_absent_key[OF ok absent, of p] obtain i1 where
        "do_push_named i s k p = Inr i1" "Parrot_pcc_signature_exists_named i1 s k = Inr 1"
        "named_ok i1 s" by auto
      then show ?thesis by auto
    next
      case present
      from overwrite_present_key[OF ok present, of p] obtain i1 where
        "do_push_named i s k p = Inr i1" "Parrot_pcc_signature_exists_named i1 s k = Inr 1"
        "named_ok i1 s" by auto
      then show ?thesis by auto
    qed
  qed
  then obtain i1 where
    1: "do_push_named i s k p = Inr i1" "Parrot_pcc_signature_exists_named i1 s k = Inr 1"
       "named_ok i1 s" by blast
  from overwrite_present_key[OF 1(3) 1(2), of q] obtain i2 bs k' c where
    2: "do_push_named i1 s k q = Inr i2" "hashes i1 (hash s) = Some bs"
       "hashes i2 = hashes i1" "entries_for i2 bs k = [(k', c)]"
       "cells i2 = (cells i1)(c \<mapsto> cell_of q)"
       "Parrot_pcc_signature_exists_named i2 s k = Inr 1" "reads_back_named i2 s k q"
    by blast
  have "hashes i2 (hash s) = Some bs" using 2(2,3) by simp
  moreover have "cells i2 c = Some (cell_of q)" using 2(5) by simp
  ultimately show ?thesis using 1 2
    by (intro exI[of _ i1] exI[of _ i2] exI[of _ bs] exI[of _ k'] exI[of _ c])
       (simp del: do_push_named.simps reads_back_named.simps)
qed

text \<open>
  C7. For every key that is already present in the named store, a named push of any
  kind overwrites the cell of that key in place: the table has exactly one entry for
  the key before and after, with the same cell address, no bucket and no other cell
  changes, the cell holds the value written last (the named read of that kind returns
  it), and \<open>exists_named\<close> is true before and after.
\<close>

theorem named_overwrite:
  assumes ok: "named_ok i s" and pre: "Parrot_pcc_signature_exists_named i s k = Inr 1"
  shows "\<exists>i' bs k' c. do_push_named i s k p = Inr i' \<and>
           hashes i (hash s) = Some bs \<and> entries_for i bs k = [(k', c)] \<and>
           hashes i' = hashes i \<and> entries_for i' bs k = [(k', c)] \<and>
           cells i' = (cells i)(c \<mapsto> cell_of p) \<and>
           Parrot_pcc_signature_exists_named i' s k = Inr 1 \<and>
           reads_back_named i' s k p"
  using overwrite_present_key[OF ok pre, of p] by blast

lemma named_ok_1: "named_ok interp1 sig1"
  by (simp add: named_ok_def table_ok_def interp1_def sig1_def interp0_def)

lemma exists_x_1: "Parrot_pcc_signature_exists_named interp1 sig1 103 = Inr 1"
  by (simp add: Parrot_pcc_signature_exists_named_def Parrot_hash_exists_def
      Parrot_hash_key_from_string_def interp1_def sig1_def interp0_def)

theorem named_overwrite_witness:
  "named_ok interp1 sig1 \<and> Parrot_pcc_signature_exists_named interp1 sig1 103 = Inr 1 \<and>
   Parrot_pcc_signature_get_integer_named interp1 sig1 103 = Inr 1 \<and>
   (\<exists>i'. do_push_named interp1 sig1 103 (PushString 101) = Inr i' \<and>
      hashes i' 8196 = Some [(103, 8194), (104, 8195)] \<and>
      cells i' 8194 = Some (STRINGCELL 101) \<and> cells i' 8195 = Some (PMCCELL 501) \<and>
      Parrot_pcc_signature_exists_named i' sig1 103 = Inr 1 \<and>
      Parrot_pcc_signature_get_string_named i' sig1 103 = Inr 101)"
proof -
  have h: "hashes interp1 (hash sig1) = Some [(103, 8194), (104, 8195)]"
    by (simp add: interp1_def sig1_def)
  have e: "entries_for interp1 [(103, 8194), (104, 8195)] 103 = [(103, 8194)]"
    by (simp add: entries_for_def interp1_def interp0_def)
  have g: "Parrot_pcc_signature_get_integer_named interp1 sig1 103 = Inr 1"
    by (simp add: Parrot_pcc_signature_get_integer_named_def Parrot_hash_get_def
        Parrot_hash_key_from_string_def interp1_def sig1_def interp0_def)
  from named_overwrite[OF named_ok_1 exists_x_1, of "PushString 101"] obtain i' bs k' c where
    r: "do_push_named interp1 sig1 103 (PushString 101) = Inr i'"
       "hashes interp1 (hash sig1) = Some bs" "entries_for interp1 bs 103 = [(k', c)]"
       "hashes i' = hashes interp1"
       "cells i' = (cells interp1)(c \<mapsto> cell_of (PushString 101))"
       "Parrot_pcc_signature_exists_named i' sig1 103 = Inr 1"
       "reads_back_named i' sig1 103 (PushString 101)"
    by blast
  from r(2) h have bs: "bs = [(103, 8194), (104, 8195)]" by simp
  with r(3) e have c: "c = 8194" by simp
  have "hashes i' 8196 = Some [(103, 8194), (104, 8195)]"
    using r(4) by (simp add: interp1_def)
  moreover have "cells i' 8194 = Some (STRINGCELL 101)" "cells i' 8195 = Some (PMCCELL 501)"
    using r(5) c by (simp_all add: interp1_def)
  moreover have "Parrot_pcc_signature_get_string_named i' sig1 103 = Inr 101"
    using r(7) by simp
  ultimately show ?thesis using named_ok_1 exists_x_1 g r(1,6) by blast
qed

subsection \<open>Marking\<close>

lemma mark_cell_log: "mark_log (mark_cell i c) = mark_log i @ cell_refs c"
  by (cases c) (simp_all add: Parrot_gc_mark_STRING_alive_def Parrot_gc_mark_PMC_alive_def
      PMC_IS_NULL_def)

lemma mark_cell_stores:
  "arrays (mark_cell i c) = arrays i" "cells (mark_cell i c) = cells i"
  "hashes (mark_cell i c) = hashes i"
  by (cases c; simp add: Parrot_gc_mark_STRING_alive_def Parrot_gc_mark_PMC_alive_def)+

lemma mark_positionals_from_log:
  assumes "arrays i (positionals s) = Some cs" "0 \<le> k" "k \<le> num_positionals s"
    "nat (num_positionals s) \<le> length cs"
  shows "\<exists>i'. mark_positionals_from i s k = Inr i' \<and>
           mark_log i' = mark_log i @
             concat (map cell_refs (drop (nat k) (take (nat (num_positionals s)) cs))) \<and>
           cells i' = cells i \<and> hashes i' = hashes i"
  using assms
proof (induction "nat (num_positionals s - k)" arbitrary: i k)
  case 0
  then have "k = num_positionals s" by simp
  then show ?case by simp
next
  case (Suc m)
  then have lt: "k < num_positionals s" by linarith
  have kl: "nat k < length cs" using lt Suc.prems by linarith
  have ld: "load_cell i (positionals s) k = Inr (cs ! nat k)"
    using Suc.prems(1,2) kl by (simp add: load_cell_def)
  have m: "m = nat (num_positionals s - (k + 1))" using Suc.hyps(2) by linarith
  have ar: "arrays (mark_cell i (cs ! nat k)) (positionals s) = Some cs"
    using Suc.prems(1) by (simp add: mark_cell_stores)
  from Suc.hyps(1)[OF m ar] Suc.prems lt obtain i' where
    r: "mark_positionals_from (mark_cell i (cs ! nat k)) s (k + 1) = Inr i'"
       "mark_log i' = mark_log (mark_cell i (cs ! nat k)) @
          concat (map cell_refs (drop (nat (k + 1)) (take (nat (num_positionals s)) cs)))"
       "cells i' = cells (mark_cell i (cs ! nat k))"
       "hashes i' = hashes (mark_cell i (cs ! nat k))"
    by force
  have dr: "drop (nat k) (take (nat (num_positionals s)) cs) =
      cs ! nat k # drop (nat (k + 1)) (take (nat (num_positionals s)) cs)"
  proof -
    have "nat k < length (take (nat (num_positionals s)) cs)" using lt Suc.prems by simp
    from Cons_nth_drop_Suc[OF this] have
      "drop (nat k) (take (nat (num_positionals s)) cs) =
         take (nat (num_positionals s)) cs ! nat k # drop (Suc (nat k)) (take (nat (num_positionals s)) cs)"
      by simp
    moreover have "take (nat (num_positionals s)) cs ! nat k = cs ! nat k"
      using lt Suc.prems by simp
    moreover have "Suc (nat k) = nat (k + 1)" using Suc.prems(2) by simp
    ultimately show ?thesis by simp
  qed
  have "mark_positionals_from i s k = Inr i'"
    using lt ld r(1) by (subst mark_positionals_from.simps) simp
  then show ?case using r dr by (simp add: mark_cell_log mark_cell_stores)
qed

lemma mark_buckets_log:
  assumes "\<forall>b\<in>set bs. cells i (snd b) \<noteq> None"
  shows "\<exists>i'. mark_buckets i bs = Inr i' \<and>
           mark_log i' = mark_log i @ concat (map (bucket_refs i) bs)"
  using assms
proof (induction bs arbitrary: i)
  case Nil
  then show ?case by simp
next
  case (Cons b bs)
  obtain key val where b: "b = (key, val)" by (cases b)
  from Cons.prems b obtain c where c: "cells i val = Some c" by auto
  define i1 where "i1 = mark_cell (Parrot_gc_mark_STRING_alive i key) c"
  have cl: "cells i1 = cells i"
    by (simp add: i1_def mark_cell_stores Parrot_gc_mark_STRING_alive_def)
  have lg: "mark_log i1 = mark_log i @ bucket_refs i b"
    using c b by (simp add: i1_def mark_cell_log Parrot_gc_mark_STRING_alive_def bucket_refs_def)
  have "\<forall>b\<in>set bs. cells i1 (snd b) \<noteq> None" using Cons.prems cl by simp
  from Cons.IH[OF this] obtain i' where
    r: "mark_buckets i1 bs = Inr i'" "mark_log i' = mark_log i1 @ concat (map (bucket_refs i1) bs)"
    by blast
  have br: "map (bucket_refs i1) bs = map (bucket_refs i) bs"
    using cl by (simp add: bucket_refs_def)
  have "mark_buckets i (b # bs) = Inr i'"
    using r(1) c b by (simp add: i1_def Parrot_gc_mark_STRING_alive_def)
  then show ?case using r(2) lg br by simp
qed

lemma mset_concat_map_perm:
  "mset bs' = mset bs \<Longrightarrow> mset (concat (map f bs')) = mset (concat (map f bs))"
proof -
  assume a: "mset bs' = mset bs"
  have "mset (concat (map f xs)) = (\<Sum>x\<in>#mset xs. mset (f x))" for xs
    by (induction xs) simp_all
  then show ?thesis using a by simp
qed


lemma mark_positionals_log:
  assumes ok: "sig_ok i s"
  shows "\<exists>i1. mark_positionals i s = Inr i1 \<and>
           mark_log i1 = mark_log i @ concat (map cell_refs (live_cells i s)) \<and>
           cells i1 = cells i \<and> hashes i1 = hashes i"
proof (cases "num_positionals s = 0")
  case True
  then show ?thesis
    by (simp add: mark_positionals_def live_cells_def split: option.splits)
next
  case False
  with ok obtain cs where
    cs: "arrays i (positionals s) = Some cs" "int (length cs) = allocated_positionals s"
    and n: "0 \<le> num_positionals s" "num_positionals s \<le> allocated_positionals s"
    by (auto simp: sig_ok_def split: option.splits if_splits)
  have le: "nat (num_positionals s) \<le> length cs" using cs n by linarith
  from mark_positionals_from_log[OF cs(1) _ n(1) le] show ?thesis
    using cs by (simp add: mark_positionals_def live_cells_def)
qed

text \<open>
  C10. For a Signature with a well-formed positional store, \<open>mark_positionals\<close> reports
  exactly the references held by the positional cells below the count; when the named
  table is present, \<open>mark_hash\<close> after it brings the reports to exactly the references
  the Signature holds (positional cells, keys and named cells), each once for each
  holder, none missing and none added; iterating the buckets in any other order
  reports the same multiset; Integer and Float cells and null pointers in cells are
  not reported.
\<close>

theorem marking_complete:
  assumes ok: "sig_ok i s"
  shows "\<exists>i1. mark_positionals i s = Inr i1 \<and>
           mset (mark_log i1) = mset (mark_log i) + mset (concat (map cell_refs (live_cells i s))) \<and>
           (named_ok i s \<longrightarrow>
              (\<exists>i2 bs. hashes i (hash s) = Some bs \<and> mark_hash i1 (hash s) = Inr i2 \<and>
                 mset (mark_log i2) = mset (mark_log i) + held_refs i s \<and>
                 (\<forall>bs'. mset bs' = mset bs \<longrightarrow>
                    (\<exists>j. mark_buckets i1 bs' = Inr j \<and> mset (mark_log j) = mset (mark_log i2))))) \<and>
           mark_cell i (INTCELL v) = i \<and> mark_cell i (FLOATCELL x) = i \<and>
           mark_cell i (STRINGCELL NULL) = i \<and> mark_cell i (PMCCELL PMCNULL) = i"
proof -
  from mark_positionals_log[OF ok] obtain i1 where
    p: "mark_positionals i s = Inr i1"
       "mark_log i1 = mark_log i @ concat (map cell_refs (live_cells i s))"
       "cells i1 = cells i" "hashes i1 = hashes i"
    by blast
  have br: "bucket_refs i1 = bucket_refs i"
    using p(3) by (simp add: bucket_refs_def fun_eq_iff)
  have named: "\<exists>i2 bs. hashes i (hash s) = Some bs \<and> mark_hash i1 (hash s) = Inr i2 \<and>
                 mset (mark_log i2) = mset (mark_log i) + held_refs i s \<and>
                 (\<forall>bs'. mset bs' = mset bs \<longrightarrow>
                    (\<exists>j. mark_buckets i1 bs' = Inr j \<and> mset (mark_log j) = mset (mark_log i2)))"
    if nok: "named_ok i s"
  proof -
    from nok obtain bs where
      bs: "hashes i (hash s) = Some bs" and tok: "table_ok i bs"
      by (auto simp: named_ok_def split: option.splits)
    have al: "\<forall>b\<in>set bs. cells i1 (snd b) \<noteq> None"
      using tok p(3) by (simp add: table_ok_def list_all_iff)
    from mark_buckets_log[OF al] obtain i2 where
      h: "mark_buckets i1 bs = Inr i2"
         "mark_log i2 = mark_log i1 @ concat (map (bucket_refs i1) bs)"
      by blast
    have mh: "mark_hash i1 (hash s) = Inr i2" using h(1) bs p(4) by (simp add: mark_hash_def)
    have tot: "mset (mark_log i2) = mset (mark_log i) + held_refs i s"
      using h(2) p(2) bs br by (simp add: held_refs_def)
    have perm: "\<exists>j. mark_buckets i1 bs' = Inr j \<and> mset (mark_log j) = mset (mark_log i2)"
      if pm: "mset bs' = mset bs" for bs'
    proof -
      have "set bs' = set bs" using pm by (rule mset_eq_setD)
      then have "\<forall>b\<in>set bs'. cells i1 (snd b) \<noteq> None" using al by simp
      from mark_buckets_log[OF this] obtain j where
        j: "mark_buckets i1 bs' = Inr j"
           "mark_log j = mark_log i1 @ concat (map (bucket_refs i1) bs')"
        by blast
      have "mset (mark_log j) = mset (mark_log i2)"
        using j(2) h(2) mset_concat_map_perm[OF pm, of "bucket_refs i1"] by simp
      then show ?thesis using j(1) by blast
    qed
    show ?thesis using bs mh tot perm by blast
  qed
  have cellsimp: "mark_cell i (INTCELL v) = i \<and> mark_cell i (FLOATCELL x) = i \<and>
           mark_cell i (STRINGCELL NULL) = i \<and> mark_cell i (PMCCELL PMCNULL) = i"
    by (simp add: PMC_IS_NULL_def)
  have "mset (mark_log i1) = mset (mark_log i) + mset (concat (map cell_refs (live_cells i s)))"
    using p(2) by simp
  then show ?thesis using p(1) named cellsimp by blast
qed

lemma held_refs_1:
  "held_refs interp1 sig1 =
     {#StringRef 101, PMCRef 500, StringRef 103, PMCRef 501, StringRef 104#}"
  by (simp add: held_refs_def live_cells_def bucket_refs_def interp1_def sig1_def)

theorem marking_complete_witness:
  "sig_ok interp1 sig1 \<and> named_ok interp1 sig1 \<and>
   (\<exists>i1 i2. mark_positionals interp1 sig1 = Inr i1 \<and> mark_hash i1 (hash sig1) = Inr i2 \<and>
      mset (mark_log i2) = {#StringRef 101, PMCRef 500, StringRef 103, PMCRef 501, StringRef 104#} \<and>
      (\<exists>j. mark_buckets i1 [(104, 8195), (103, 8194)] = Inr j \<and>
           mset (mark_log j) = mset (mark_log i2)))"
proof -
  have e: "mark_log interp1 = []" by (simp add: interp1_def interp0_def)
  have h: "hashes interp1 (hash sig1) = Some [(103, 8194), (104, 8195)]"
    by (simp add: interp1_def sig1_def)
  have pm: "mset [(104, 8195), (103, 8194)] = mset [(103::nat, 8194::nat), (104, 8195)]"
    by simp
  from marking_complete[OF sig_ok_1, of 0 0] named_ok_1 obtain i1 i2 bs where
    r: "mark_positionals interp1 sig1 = Inr i1"
       "hashes interp1 (hash sig1) = Some bs" "mark_hash i1 (hash sig1) = Inr i2"
       "mset (mark_log i2) = mset (mark_log interp1) + held_refs interp1 sig1"
       "\<forall>bs'. mset bs' = mset bs \<longrightarrow>
          (\<exists>j. mark_buckets i1 bs' = Inr j \<and> mset (mark_log j) = mset (mark_log i2))"
    by blast
  from r(2) h have bs: "bs = [(103, 8194), (104, 8195)]" by simp
  from r(5) bs pm have
    "\<exists>j. mark_buckets i1 [(104, 8195), (103, 8194)] = Inr j \<and> mset (mark_log j) = mset (mark_log i2)"
    by blast
  moreover have "mset (mark_log i2) =
      {#StringRef 101, PMCRef 500, StringRef 103, PMCRef 501, StringRef 104#}"
    using r(4) e held_refs_1 by simp
  ultimately show ?thesis using sig_ok_1 named_ok_1 r(1,3) by blast
qed

subsection \<open>Clone\<close>

lemma new_any:
  "Parrot_pcc_signature_new i =
     (\<lparr>positionals = 72340172838076673, num_positionals = 72340172838076673,
       allocated_positionals = 72340172838076673, hash = 72340172838076673,
       type_tuple = 72340172838076673, short_sig = 72340172838076673,
       arg_flags = 72340172838076673, return_flags = 72340172838076673\<rparr>,
      i\<lparr>brk := Suc (brk i),
        alloc_log := alloc_log i @ [AllocFixed sizeof_Parrot_Signature (Suc (brk i))]\<rparr>)"
  by (simp add: Parrot_pcc_signature_new_def Parrot_gc_allocate_fixed_size_storage_def)

lemma clone_never_returns:
  "Parrot_pcc_signature_clone i s \<noteq> Inr (Some d, i')"
  by (auto simp: Parrot_pcc_signature_clone_def Let_def split: sum.splits prod.splits option.splits)

text \<open>
  C4. \<open>clone\<close> is to return a fully populated, independent Signature for every
  Signature. Evaluated on a Signature with no arguments and all four metadata handles,
  the body runs to its end and hands the caller no Signature; evaluated on a
  Signature with five positionals and a named table, it copies the cells through the
  array pointer that \<open>Parrot_pcc_signature_new\<close> left as \<open>0x0101010101010101\<close> and
  faults; and on no input at all does it return a Signature.
\<close>

theorem clone_returns_no_signature:
  "(\<exists>i'. Parrot_pcc_signature_clone interp0 sig2 = Inr (None, i')) \<and>
   Parrot_pcc_signature_clone interp1 sig1 = Inl BadPointer \<and>
   Parrot_pcc_signature_clone i s \<noteq> Inr (Some d, j)"
proof -
  have a: "\<exists>i'. Parrot_pcc_signature_clone interp0 sig2 = Inr (None, i')"
    unfolding Parrot_pcc_signature_clone_def new_any
    by (simp add: sig2_def ensure_positionals_storage_def memcpy_cells_def)
  have b: "Parrot_pcc_signature_clone interp1 sig1 = Inl BadPointer"
    unfolding Parrot_pcc_signature_clone_def new_any
    by (simp add: sig1_def ensure_positionals_storage_def memcpy_cells_def interp1_def interp0_def)
  show ?thesis using a b clone_never_returns by blast
qed

end
